theory Spec2Isabelle
  imports Complex_Main
begin

section \<open>Errors and numbers\<close>

text \<open>
  Python exceptions raised by the modelled code become values of \<open>error\<close>. The
  exception raised by \<open>Dataset._ensure_number_is_int\<close> carries the offending value,
  as its message does.
\<close>

datatype error =
    KeyError
  | ValueError
  | TypeError
  | IndexError
  | AttributeError
  | ZeroDivisionError
  | QueueEmpty
  | NonIntegerSlice rat

text \<open>
  Index values are Python numbers (ints, floats, numpy floats). They are modelled as
  rationals: \<open>2\<close> and \<open>2.0\<close> are equal and hash alike in Python, so they are the
  same dictionary key, and the arithmetic of the code on them is exact here.
\<close>

section \<open>Cache\<close>

record ('k, 'v) cache =
  max_size :: int
  used_keys :: "'k list"
  dict :: "'k \<rightharpoonup> 'v"

definition Cache :: "int \<Rightarrow> ('k, 'v) cache" where
  "Cache m = \<lparr>max_size = m, used_keys = [], dict = Map.empty\<rparr>"

definition cache_contains :: "('k, 'v) cache \<Rightarrow> 'k \<Rightarrow> bool" where
  "cache_contains c key = (dict c key \<noteq> None)"

definition cache_getitem :: "('k, 'v) cache \<Rightarrow> 'k \<Rightarrow> error + 'v" where
  "cache_getitem c item = (case dict c item of None \<Rightarrow> Inl KeyError | Some v \<Rightarrow> Inr v)"

text \<open>
  \<open>Cache.__setitem__\<close>. \<open>list.remove\<close> raises ValueError when the key is not in the
  list, \<open>del d[k]\<close> raises KeyError when the key is not in the dictionary; the list is
  never empty when \<open>pop(0)\<close> runs, since the key was appended just before.
\<close>

definition cache_setitem :: "('k, 'v) cache \<Rightarrow> 'k \<Rightarrow> 'v \<Rightarrow> error + ('k, 'v) cache" where
  "cache_setitem c key val =
     (if cache_contains c key then
        (if key \<in> set (used_keys c)
         then Inr (c\<lparr>used_keys := remove1 key (used_keys c) @ [key]\<rparr>)
         else Inl ValueError)
      else
        (let uk = used_keys c @ [key] in
         if int (length uk) > max_size c then
           (let key_to_del = hd uk in
            if dict c key_to_del = None then Inl KeyError
            else Inr (c\<lparr>used_keys := tl uk,
                         dict := ((dict c)(key_to_del := None))(key \<mapsto> val)\<rparr>))
         else Inr (c\<lparr>used_keys := uk, dict := (dict c)(key \<mapsto> val)\<rparr>)))"

text \<open>A sequence of puts, stopping at the first exception.\<close>

fun cache_puts :: "('k, 'v) cache \<Rightarrow> ('k \<times> 'v) list \<Rightarrow> error + ('k, 'v) cache" where
  "cache_puts c [] = Inr c"
| "cache_puts c ((k, v) # kvs) =
     (case cache_setitem c k v of Inl e \<Rightarrow> Inl e | Inr c' \<Rightarrow> cache_puts c' kvs)"

section \<open>Index arithmetic\<close>

text \<open>Python's \<open>round\<close> on a number: to the nearest integer, a tie to the even one.\<close>

definition py_round :: "rat \<Rightarrow> int" where
  "py_round v =
     (let f = \<lfloor>v\<rfloor>; d = v - of_int f in
      if d < 1/2 then f else if d > 1/2 then f + 1 else if even f then f else f + 1)"

text \<open>\<open>Dataset._ensure_number_is_int\<close>; \<open>val % 1\<close> is the fractional part.\<close>

definition ensure_number_is_int :: "rat \<Rightarrow> error + int" where
  "ensure_number_is_int val =
     (if frac val > 1 / 1000000 then Inl (NonIntegerSlice val) else Inr (py_round val))"

text \<open>
  A slice request: a number, or \<open>slice(start, stop, step)\<close> with numeric bounds.
\<close>

datatype slice_obj = Num rat | Slice rat rat "rat option"

text \<open>\<open>np.arange(start, stop, 1.)\<close>: \<open>ceil(stop - start)\<close> values from \<open>start\<close>.\<close>

definition arange :: "rat \<Rightarrow> rat \<Rightarrow> rat list" where
  "arange a b = map (\<lambda>k. a + of_nat k) [0..<nat \<lceil>b - a\<rceil>]"

text \<open>
  \<open>Dataset._split_slice_obj\<close>. The loop state is the pair of \<open>start\<close> and
  \<open>slice_objs\<close>.
\<close>

definition split_step ::
  "(rat, 'v) cache \<Rightarrow> rat \<times> (bool \<times> slice_obj) list \<Rightarrow> rat \<Rightarrow> rat \<times> (bool \<times> slice_obj) list" where
  "split_step c st i =
     (case st of (start, slice_objs) \<Rightarrow>
        if cache_contains c i then
          (i + 1,
           (if i \<noteq> start then slice_objs @ [(False, Slice start i (Some 1))] else slice_objs)
             @ [(True, Slice i (i + 1) (Some 1))])
        else (start, slice_objs))"

definition split_slice_obj :: "slice_obj \<Rightarrow> (rat, 'v) cache \<Rightarrow> (bool \<times> slice_obj) list" where
  "split_slice_obj slice_obj c =
     (case slice_obj of
        Num n \<Rightarrow> (if cache_contains c n then [(True, Num n)] else [(False, Num n)])
      | Slice a b st \<Rightarrow>
          (case foldl (split_step c) (a, []) (arange a b) of (start, slice_objs) \<Rightarrow>
             if start < b then slice_objs @ [(False, Slice start b (Some 1))]
             else if slice_objs = [] then [(False, slice_obj)]
             else slice_objs))"

section \<open>Properties of the cache: auxiliary notions\<close>

text \<open>
  The \<open>n\<close> most recently used keys of a sequence of uses, least recent first: the
  distinct keys in the order of their last use, cut to the last \<open>n\<close>.
\<close>

definition mru :: "nat \<Rightarrow> 'k list \<Rightarrow> 'k list" where
  "mru n ks = drop (length (remdups ks) - n) (remdups ks)"

text \<open>The recency list holds exactly the keys of the dictionary, once each.\<close>

definition cache_wf :: "('k, 'v) cache \<Rightarrow> bool" where
  "cache_wf c = (dom (dict c) = set (used_keys c) \<and> distinct (used_keys c))"


section \<open>Containers\<close>

text \<open>
  \<open>ivy.Container\<close> is an external collaborator, used through \<open>slice\<close>, \<open>size\<close>,
  \<open>map\<close>, \<open>list_stack\<close> and \<open>list_join\<close>. A container is modelled as its named
  leaves; a leaf value is an opaque element, an array (with its entries along the
  leading axis) or a Python list.
\<close>

datatype 'a val = Atom 'a | Arr "'a val list" | PyList "'a val list"

type_synonym 'a container = "(string \<times> 'a val) list"

definition ebind :: "error + 'a \<Rightarrow> ('a \<Rightarrow> error + 'b) \<Rightarrow> error + 'b" where
  "ebind m f = (case m of Inl e \<Rightarrow> Inl e | Inr x \<Rightarrow> f x)"

text \<open>Running a fallible function over a list, left to right, stopping at the first error.\<close>

fun emap :: "('a \<Rightarrow> error + 'b) \<Rightarrow> 'a list \<Rightarrow> error + 'b list" where
  "emap f [] = Inr []"
| "emap f (x # xs) =
     (case f x of Inl e \<Rightarrow> Inl e
      | Inr y \<Rightarrow> (case emap f xs of Inl e \<Rightarrow> Inl e | Inr ys \<Rightarrow> Inr (y # ys)))"

text \<open>\<open>range(a, b, s)\<close> for a step other than zero.\<close>

definition py_range :: "int \<Rightarrow> int \<Rightarrow> int \<Rightarrow> int list" where
  "py_range a b s =
     (if s > 0 then map (\<lambda>k. a + int k * s) [0..<nat ((b - a + s - 1) div s)]
      else map (\<lambda>k. a + int k * s) [0..<nat ((a - b - s - 1) div (- s))])"

text \<open>\<open>xs[i]\<close> on a list or along the leading axis of an array.\<close>

definition py_index :: "'b list \<Rightarrow> int \<Rightarrow> error + 'b" where
  "py_index xs i =
     (let n = int (length xs); j = (if i < 0 then i + n else i) in
      if 0 \<le> j \<and> j < n then Inr (xs ! nat j) else Inl IndexError)"

text \<open>\<open>xs[start:stop:step]\<close>, following \<open>slice.indices\<close>.\<close>

definition py_slice :: "'b list \<Rightarrow> int \<Rightarrow> int \<Rightarrow> int \<Rightarrow> error + 'b list" where
  "py_slice xs start stop step =
     (if step = 0 then Inl ValueError
      else
        (let n = int (length xs);
             lower = (if step > 0 then 0 else - 1);
             upper = (if step > 0 then n else n - 1);
             a = (if start < 0 then max (start + n) lower else min start upper);
             b = (if stop < 0 then max (stop + n) lower else min stop upper)
         in Inr (map (\<lambda>i. xs ! nat i) (py_range a b step))))"

text \<open>An integer index or an integer slice, as \<open>Container.slice\<close> receives it.\<close>

datatype int_slice = INum int | ISlice int int int

definition val_slice :: "int_slice \<Rightarrow> 'a val \<Rightarrow> error + 'a val" where
  "val_slice so x =
     (case x of
        Atom _ \<Rightarrow> Inl TypeError
      | Arr xs \<Rightarrow>
          (case so of INum i \<Rightarrow> py_index xs i
           | ISlice a b s \<Rightarrow> ebind (py_slice xs a b s) (\<lambda>ys. Inr (Arr ys)))
      | PyList xs \<Rightarrow>
          (case so of INum i \<Rightarrow> py_index xs i
           | ISlice a b s \<Rightarrow> ebind (py_slice xs a b s) (\<lambda>ys. Inr (PyList ys))))"

definition container_slice :: "int_slice \<Rightarrow> 'a container \<Rightarrow> error + 'a container" where
  "container_slice so cont = emap (\<lambda>(k, x). ebind (val_slice so x) (\<lambda>y. Inr (k, y))) cont"

text \<open>\<open>Container.size\<close>: the leading size of the leaves, read off the first leaf.\<close>

definition container_size :: "'a container \<Rightarrow> nat" where
  "container_size cont =
     (case cont of [] \<Rightarrow> 0
      | (k, x) # _ \<Rightarrow> (case x of Atom _ \<Rightarrow> 0 | Arr xs \<Rightarrow> length xs | PyList xs \<Rightarrow> length xs))"

definition container_map :: "('a val \<Rightarrow> error + 'a val) \<Rightarrow> 'a container \<Rightarrow> error + 'a container" where
  "container_map f cont = emap (\<lambda>(k, x). ebind (f x) (\<lambda>y. Inr (k, y))) cont"

text \<open>A leaf of a container by its key; a missing key raises KeyError.\<close>

definition container_get :: "'a container \<Rightarrow> string \<Rightarrow> error + 'a val" where
  "container_get cont k = (case map_of cont k of None \<Rightarrow> Inl KeyError | Some x \<Rightarrow> Inr x)"

text \<open>
  \<open>Container.list_stack(containers, 0)\<close>: for every key of the first container, the list
  of the leaves under that key.
\<close>

definition list_stack :: "'a container list \<Rightarrow> error + 'a container" where
  "list_stack conts =
     (case conts of [] \<Rightarrow> Inl IndexError
      | c0 # _ \<Rightarrow>
          emap (\<lambda>(k, _). ebind (emap (\<lambda>c. container_get c k) conts) (\<lambda>xs. Inr (k, PyList xs))) c0)"

text \<open>Iterating over a leaf: the entries of a list or of an array.\<close>

definition val_iter :: "'a val \<Rightarrow> error + 'a val list" where
  "val_iter x = (case x of Atom _ \<Rightarrow> Inl TypeError | Arr xs \<Rightarrow> Inr xs | PyList xs \<Rightarrow> Inr xs)"

text \<open>
  \<open>Container.list_join(containers)\<close>: for every key of the first container, the
  concatenation of the leaves under that key.
\<close>

definition list_join :: "'a container list \<Rightarrow> error + 'a container" where
  "list_join conts =
     (case conts of [] \<Rightarrow> Inl IndexError
      | c0 # _ \<Rightarrow>
          emap (\<lambda>(k, _).
                  ebind (emap (\<lambda>c. ebind (container_get c k) val_iter) conts)
                    (\<lambda>xss. Inr (k, PyList (concat xss)))) c0)"

text \<open>\<open>item.map(lambda x, kc: x if isinstance(x, list) else [x])\<close>.\<close>

definition as_list :: "'a val \<Rightarrow> 'a val" where
  "as_list x = (case x of PyList xs \<Rightarrow> PyList xs | _ \<Rightarrow> PyList [x])"

definition as_lists :: "'a container \<Rightarrow> 'a container" where
  "as_lists cont = map (\<lambda>(k, x). (k, as_list x)) cont"

section \<open>Dataset stages\<close>

text \<open>
  A size is a Python int or a Python float: \<open>batch\<close> makes it a float, and \<open>range\<close>
  accepts ints only.
\<close>

datatype pynum = PInt int | PFloat rat

definition num_of :: "pynum \<Rightarrow> rat" where
  "num_of n = (case n of PInt i \<Rightarrow> of_int i | PFloat r \<Rightarrow> r)"

text \<open>Python's \<open>%\<close>: the result has the sign of the divisor.\<close>

definition py_mod :: "rat \<Rightarrow> rat \<Rightarrow> error + rat" where
  "py_mod a b = (if b = 0 then Inl ZeroDivisionError else Inr (a - b * of_int \<lfloor>a / b\<rfloor>))"

text \<open>
  The fields of a \<open>Dataset\<close> other than its base, its cache and its workers. The base
  slice function is kept as the map from the request to the slice object it passes to
  \<open>Dataset._slice_dataset\<close> on the base: the default one, the one of \<open>batch\<close> and
  the one of \<open>unbatch\<close> all end in that call.
\<close>

record 'a stage =
  name :: string
  stage_size :: pynum
  base_slice_fn :: "slice_obj \<Rightarrow> error + slice_obj"
  trans_fn :: "('a container \<Rightarrow> error + 'a container) option"
  slice_fn :: "slice_obj \<Rightarrow> 'a container \<Rightarrow> pynum \<Rightarrow> error + 'a container"
  elementwise_query_fn :: bool
  with_caching :: bool
  cache_size :: int
  num_processes :: int

text \<open>\<open>Dataset._slice_dataset\<close> on a container.\<close>

definition slice_container :: "slice_obj \<Rightarrow> 'a container \<Rightarrow> error + 'a container" where
  "slice_container slice_obj dataset =
     (case slice_obj of
        Num n \<Rightarrow> ebind (ensure_number_is_int n) (\<lambda>i. container_slice (INum i) dataset)
      | Slice a b st \<Rightarrow>
          ebind (ensure_number_is_int a) (\<lambda>so_start.
          ebind (ensure_number_is_int b) (\<lambda>so_stop.
          ebind (case st of None \<Rightarrow> Inr 1 | Some s \<Rightarrow> ensure_number_is_int s) (\<lambda>so_step.
            container_slice (ISlice so_start so_stop so_step) dataset))))"

definition default_base_slice_fn :: "slice_obj \<Rightarrow> error + slice_obj" where
  "default_base_slice_fn slice_obj =
     (case slice_obj of
        Num n \<Rightarrow> Inr (Slice (of_int (py_round n)) (of_int (py_round (n + 1))) (Some 1))
      | Slice a b st \<Rightarrow>
          (case st of None \<Rightarrow> Inl TypeError
           | Some s \<Rightarrow>
               Inr (Slice (of_int (py_round a)) (of_int (py_round b)) (Some (of_int (py_round s))))))"

definition default_slice_fn :: "slice_obj \<Rightarrow> 'a container \<Rightarrow> pynum \<Rightarrow> error + 'a container" where
  "default_slice_fn slice_obj sliced_dataset dataset_size =
     (case slice_obj of
        Num n \<Rightarrow> slice_container (Num 0) sliced_dataset
      | Slice a b st \<Rightarrow>
          (let slice_size = (if b > a then b - a else b + num_of dataset_size - a)
           in slice_container (Slice 0 slice_size st) sliced_dataset))"

section \<open>A query on one stage\<close>

text \<open>
  The functions of this section are those of \<open>Dataset\<close> for one stage. The base
  dataset enters through \<open>fetch\<close>, which is \<open>Dataset._slice_dataset\<close> on the base: it
  takes a slice object and the state of the base and returns the sliced container and
  the new state of the base.
\<close>

type_synonym ('a, 'b) fetch = "slice_obj \<Rightarrow> 'b \<Rightarrow> error + ('a container \<times> 'b)"

text \<open>The element-wise branch of \<open>_get_base_item\<close>.\<close>

definition trans_elementwise ::
  "('a container \<Rightarrow> error + 'a container) \<Rightarrow> 'a container \<Rightarrow> error + 'a container" where
  "trans_elementwise f base_dataset =
     ebind (emap (\<lambda>i. ebind (container_slice (INum (int i)) base_dataset) f)
              [0..<container_size base_dataset])
       list_stack"

definition get_base_item ::
  "'a stage \<Rightarrow> ('a, 'b) fetch \<Rightarrow> slice_obj \<Rightarrow> 'b \<Rightarrow> error + ('a container \<times> 'b)" where
  "get_base_item stg fetch slice_obj b =
     ebind (base_slice_fn stg slice_obj) (\<lambda>base_slice_obj.
     ebind (fetch base_slice_obj b) (\<lambda>(base_dataset, b').
       (case trans_fn stg of
          None \<Rightarrow> Inr (base_dataset, b')
        | Some f \<Rightarrow>
            if elementwise_query_fn stg
            then ebind (trans_elementwise f base_dataset) (\<lambda>r. Inr (r, b'))
            else ebind (f base_dataset) (\<lambda>r. Inr (r, b')))))"

text \<open>What \<open>_wrap_base_slice_obj\<close> returns: one slice object, or a pair of slices.\<close>

datatype base_slice = One slice_obj | Two slice_obj slice_obj

definition get_item_from_slice_objs ::
  "'a stage \<Rightarrow> ('a, 'b) fetch \<Rightarrow> base_slice \<Rightarrow> slice_obj \<Rightarrow> 'b \<Rightarrow> error + ('a container \<times> 'b)" where
  "get_item_from_slice_objs stg fetch base_slice_obj slice_obj b =
     ebind
       (case base_slice_obj of
          Two so0 so1 \<Rightarrow>
            ebind (get_base_item stg fetch so0 b) (\<lambda>(item0, b0).
            ebind (get_base_item stg fetch so1 b0) (\<lambda>(item1, b1).
            ebind (list_join [item0, item1]) (\<lambda>item. Inr (item, b1))))
        | One so \<Rightarrow> get_base_item stg fetch so b)
       (\<lambda>(item, b'). ebind (slice_fn stg slice_obj item (stage_size stg)) (\<lambda>r. Inr (r, b')))"

definition wrap_slice_obj :: "'a stage \<Rightarrow> slice_obj \<Rightarrow> error + slice_obj" where
  "wrap_slice_obj stg slice_obj =
     (case slice_obj of
        Num n \<Rightarrow> ebind (py_mod n (num_of (stage_size stg))) (\<lambda>r. Inr (Num r))
      | Slice a b st \<Rightarrow>
          ebind (py_mod a (num_of (stage_size stg))) (\<lambda>so_start.
          ebind (if b \<noteq> of_int \<lceil>num_of (stage_size stg)\<rceil> then py_mod b (num_of (stage_size stg)) else Inr b)
            (\<lambda>so_stop. Inr (Slice so_start so_stop (Some 1)))))"

definition wrap_base_slice_obj :: "'a stage \<Rightarrow> slice_obj \<Rightarrow> base_slice" where
  "wrap_base_slice_obj stg slice_obj =
     (case slice_obj of
        Num n \<Rightarrow> One (Num n)
      | Slice a b st \<Rightarrow>
          (let so = (if b = 0 then Slice a (num_of (stage_size stg)) (Some 1) else Slice a b st) in
           case so of
             Slice a' b' st' \<Rightarrow>
               if b' < a' then Two (Slice a' (num_of (stage_size stg)) (Some 1)) (Slice 0 b' (Some 1))
               else One so
           | Num n \<Rightarrow> One so))"

definition get_item_after_cache_n_wrap ::
  "'a stage \<Rightarrow> ('a, 'b) fetch \<Rightarrow> slice_obj \<Rightarrow> 'b \<Rightarrow> error + ('a container \<times> 'b)" where
  "get_item_after_cache_n_wrap stg fetch slice_obj b =
     get_item_from_slice_objs stg fetch (wrap_base_slice_obj stg slice_obj) slice_obj b"

text \<open>
  \<open>_add_to_cache\<close>. The loop runs over \<open>np.arange(so.start, so.stop - 1e-3, 1.)\<close>.
\<close>

fun add_units ::
  "(rat, 'a container) cache \<Rightarrow> rat \<Rightarrow> 'a container \<Rightarrow> rat list \<Rightarrow> error + (rat, 'a container) cache" where
  "add_units c start item [] = Inr c"
| "add_units c start item (i # is) =
     (case slice_container (Num (i - start)) item of
        Inl e \<Rightarrow> Inl e
      | Inr unit \<Rightarrow>
          (case cache_setitem c i unit of
             Inl e \<Rightarrow> Inl e
           | Inr c' \<Rightarrow> add_units c' start item is))"

definition add_to_cache ::
  "(rat, 'a container) cache \<Rightarrow> slice_obj \<Rightarrow> 'a container \<Rightarrow> error + (rat, 'a container) cache" where
  "add_to_cache c so item =
     (case so of
        Num n \<Rightarrow> cache_setitem c n item
      | Slice a b st \<Rightarrow> add_units c a item (arange a (b - 1 / 1000)))"

text \<open>
  The first loop of \<open>_get_item\<close>, over the pieces of the split: it returns \<open>items\<close>,
  the pairs of \<open>sos_for_cache\<close> and \<open>items_for_cache\<close>, and the state of the base.
\<close>

fun get_pieces ::
  "'a stage \<Rightarrow> ('a, 'b) fetch \<Rightarrow> (rat, 'a container) cache \<Rightarrow> (bool \<times> slice_obj) list \<Rightarrow> 'b
   \<Rightarrow> error + ('a container list \<times> (slice_obj \<times> 'a container) list \<times> 'b)" where
  "get_pieces stg fetch c [] b = Inr ([], [], b)"
| "get_pieces stg fetch c ((from_cache, so) # rest) b =
     (if from_cache then
        (case cache_getitem c (case so of Num n \<Rightarrow> n | Slice a _ _ \<Rightarrow> a) of
           Inl e \<Rightarrow> Inl e
         | Inr item \<Rightarrow>
             (case get_pieces stg fetch c rest b of
                Inl e \<Rightarrow> Inl e
              | Inr (items, for_cache, b') \<Rightarrow> Inr (item # items, for_cache, b')))
      else
        (case get_item_after_cache_n_wrap stg fetch so b of
           Inl e \<Rightarrow> Inl e
         | Inr (item, b1) \<Rightarrow>
             (case get_pieces stg fetch c rest b1 of
                Inl e \<Rightarrow> Inl e
              | Inr (items, for_cache, b') \<Rightarrow>
                  Inr (item # items,
                       (if with_caching stg then (so, item) # for_cache else for_cache), b'))))"

text \<open>The second loop of \<open>_get_item\<close>.\<close>

fun add_all_to_cache ::
  "(rat, 'a container) cache \<Rightarrow> (slice_obj \<times> 'a container) list \<Rightarrow> error + (rat, 'a container) cache" where
  "add_all_to_cache c [] = Inr c"
| "add_all_to_cache c ((so, item) # rest) =
     (case add_to_cache c so item of Inl e \<Rightarrow> Inl e | Inr c' \<Rightarrow> add_all_to_cache c' rest)"

text \<open>
  \<open>_get_item\<close>: the result, the cache of the stage after the query and the state of the
  base after it.
\<close>

definition get_item ::
  "'a stage \<Rightarrow> ('a, 'b) fetch \<Rightarrow> slice_obj \<Rightarrow> (rat, 'a container) cache \<times> 'b
   \<Rightarrow> error + ('a container \<times> (rat, 'a container) cache \<times> 'b)" where
  "get_item stg fetch slice_obj st =
     (case st of (c, b) \<Rightarrow>
        ebind (wrap_slice_obj stg slice_obj) (\<lambda>so.
        ebind (get_pieces stg fetch c (split_slice_obj so c) b) (\<lambda>(items, for_cache, b').
        ebind (add_all_to_cache c for_cache) (\<lambda>c'.
          if length items = 1 then
            (case so of
               Num n \<Rightarrow> Inr (hd items, c', b')
             | Slice _ _ _ \<Rightarrow> Inr (as_lists (hd items), c', b'))
          else ebind (list_join (map as_lists items)) (\<lambda>r. Inr (r, c', b'))))))"

section \<open>Pipelines and their state\<close>

text \<open>
  A \<open>Dataset\<close> wraps a container or another \<open>Dataset\<close>. The fields fixed at
  construction form the pipeline; the caches and the worker pools are its state, one
  entry per stage from the outermost stage to the innermost.
\<close>

datatype 'a pipeline = Container "'a container" | Dataset "'a stage" "'a pipeline"

text \<open>
  A worker process: the caches of its copy of the pipeline (a copy has no workers of
  its own at any stage), the contents of its output queue, and whether it still runs.
  A worker whose \<open>_get_item\<close> raises ends with the exception.
\<close>

record 'a worker =
  w_caches :: "(rat, 'a container) cache list"
  w_out :: "'a container list"
  w_alive :: bool

text \<open>
  \<open>stage_workers\<close> stands for the three attributes \<open>_workers\<close>, \<open>_slice_queues\<close> and
  \<open>_output_queues\<close>, which are created together and deleted together; \<open>None\<close> when
  the object does not have them.
\<close>

record 'a stage_state =
  stage_cache :: "(rat, 'a container) cache"
  stage_workers :: "'a worker list option"

type_synonym 'a dstate = "'a stage_state list"

text \<open>\<open>_deep_copy\<close>: \<open>_copy_args\<close> holds \<open>num_processes=1\<close>, the container is shared.\<close>

fun deep_copy :: "'a pipeline \<Rightarrow> 'a pipeline" where
  "deep_copy (Container cont) = Container cont"
| "deep_copy (Dataset stg base) = Dataset (stg\<lparr>num_processes := 1\<rparr>) (deep_copy base)"

text \<open>The caches of a freshly constructed copy.\<close>

fun init_caches :: "'a pipeline \<Rightarrow> (rat, 'a container) cache list" where
  "init_caches (Container cont) = []"
| "init_caches (Dataset stg base) = Cache (cache_size stg) # init_caches base"

text \<open>The state that \<open>Dataset.__init__\<close> creates for the new stage.\<close>

definition init_stage_state :: "'a stage \<Rightarrow> 'a pipeline \<Rightarrow> 'a stage_state" where
  "init_stage_state stg base =
     \<lparr>stage_cache = Cache (cache_size stg),
      stage_workers =
        (if num_processes stg > 1
         then Some (replicate (nat (num_processes stg))
                \<lparr>w_caches = init_caches (deep_copy (Dataset stg base)), w_out = [], w_alive = True\<rparr>)
         else None)\<rparr>"

text \<open>The state of a pipeline in which every stage has just been constructed.\<close>

fun init_state :: "'a pipeline \<Rightarrow> 'a dstate" where
  "init_state (Container cont) = []"
| "init_state (Dataset stg base) = init_stage_state stg base # init_state base"

text \<open>The state of a copy, which has caches only, as a pipeline state and back.\<close>

definition copy_state :: "(rat, 'a container) cache list \<Rightarrow> 'a dstate" where
  "copy_state cs = map (\<lambda>c. \<lparr>stage_cache = c, stage_workers = None\<rparr>) cs"

definition copy_caches :: "'a dstate \<Rightarrow> (rat, 'a container) cache list" where
  "copy_caches st = map stage_cache st"

section \<open>The parallel query\<close>

text \<open>
  \<open>np.round(np.linspace(start, stop, n + 1))\<close> and the sub-slices between consecutive
  points. A number of points that is not an integer raises TypeError, a negative one
  ValueError.
\<close>

definition sub_slices_of :: "rat \<Rightarrow> rat \<Rightarrow> rat \<Rightarrow> error + slice_obj list" where
  "sub_slices_of a b num_sub_slices =
     (if frac num_sub_slices \<noteq> 0 then Inl TypeError
      else
        (let n = \<lfloor>num_sub_slices\<rfloor> in
         if n + 1 < 0 then Inl ValueError
         else
           Inr (map (\<lambda>i. Slice (of_int (py_round (a + of_nat i * ((b - a) / of_int n))))
                             (of_int (py_round (a + of_nat (i + 1) * ((b - a) / of_int n))))
                             (Some 1))
                  [0..<nat n])))"

text \<open>
  One worker serving one request: it runs \<open>_get_item\<close> of its copy, given as \<open>run\<close>,
  and puts the result on its output queue. A worker that has ended leaves the request
  on its queue.
\<close>

definition worker_serve ::
  "(slice_obj \<Rightarrow> (rat, 'a container) cache list \<Rightarrow> error + ('a container \<times> (rat, 'a container) cache list))
   \<Rightarrow> slice_obj \<Rightarrow> 'a worker \<Rightarrow> 'a worker" where
  "worker_serve run so w =
     (if w_alive w then
        (case run so (w_caches w) of
           Inl e \<Rightarrow> w\<lparr>w_alive := False\<rparr>
         | Inr (r, cs) \<Rightarrow> w\<lparr>w_caches := cs, w_out := w_out w @ [r]\<rparr>)
      else w)"

text \<open>
  The dispatch loop: sub-slice \<open>i\<close> goes to the queue \<open>(i + offset) % num_processes\<close>.
  Indexing the queue list out of range raises IndexError.
\<close>

fun dispatch ::
  "(slice_obj \<Rightarrow> 'a worker \<Rightarrow> 'a worker) \<Rightarrow> nat \<Rightarrow> int \<Rightarrow> (nat \<times> slice_obj) list
   \<Rightarrow> 'a worker list option \<Rightarrow> error + 'a worker list option" where
  "dispatch serve offset n [] ws = Inr ws"
| "dispatch serve offset n ((i, so) # rest) ws =
     (case ws of
        None \<Rightarrow> Inl AttributeError
      | Some wl \<Rightarrow>
          (if n = 0 then Inl ZeroDivisionError
           else
             (let j = nat ((int i + int offset) mod n) in
              if j < length wl
              then dispatch serve offset n rest (Some (wl[j := serve so (wl ! j)]))
              else Inl IndexError)))"

text \<open>
  The collecting loop: result \<open>i\<close> is taken from the output queue
  \<open>(i + offset) % num_processes\<close>; an empty queue raises \<open>queue.Empty\<close> at the
  timeout.
\<close>

fun collect ::
  "nat \<Rightarrow> int \<Rightarrow> nat list \<Rightarrow> 'a worker list option
   \<Rightarrow> error + ('a container list \<times> 'a worker list option)" where
  "collect offset n [] ws = Inr ([], ws)"
| "collect offset n (i # rest) ws =
     (case ws of
        None \<Rightarrow> Inl AttributeError
      | Some wl \<Rightarrow>
          (if n = 0 then Inl ZeroDivisionError
           else
             (let j = nat ((int i + int offset) mod n) in
              if j < length wl then
                (case w_out (wl ! j) of
                   [] \<Rightarrow> Inl QueueEmpty
                 | r # out \<Rightarrow>
                     (case collect offset n rest (Some (wl[j := (wl ! j)\<lparr>w_out := out\<rparr>])) of
                        Inl e \<Rightarrow> Inl e
                      | Inr (items, ws') \<Rightarrow> Inr (r # items, ws')))
              else Inl IndexError)))"

text \<open>
  The comparison of the workers' results with the results computed inline. It reads the
  leaf \<open>x\<close> of every result, which raises AttributeError when there is none; what it
  finds goes to a log file only, so \<open>np.allclose\<close> is left out.
\<close>

definition attr_x :: "'a container \<Rightarrow> error + 'a val" where
  "attr_x cont = (case map_of cont ''x'' of None \<Rightarrow> Inl AttributeError | Some x \<Rightarrow> Inr x)"

fun compare_items :: "('a container \<times> 'a container) list \<Rightarrow> error + unit" where
  "compare_items [] = Inr ()"
| "compare_items ((item, item_true) # rest) =
     (case attr_x item of
        Inl e \<Rightarrow> Inl e
      | Inr x \<Rightarrow>
          (case attr_x item_true of
             Inl e \<Rightarrow> Inl e
           | Inr x_true \<Rightarrow>
               (case (case x of PyList _ \<Rightarrow> val_iter x_true | _ \<Rightarrow> Inr []) of
                  Inl e \<Rightarrow> Inl e
                | Inr _ \<Rightarrow> compare_items rest)))"

text \<open>
  The inline recomputation \<open>[self._get_item(slice_obj) for slice_obj in sub_slices]\<close>,
  with \<open>run\<close> for \<open>_get_item\<close> of the coordinator on its own state.
\<close>

fun get_items_true ::
  "(slice_obj \<Rightarrow> 's \<Rightarrow> error + ('a container \<times> 's)) \<Rightarrow> slice_obj list \<Rightarrow> 's
   \<Rightarrow> error + ('a container list \<times> 's)" where
  "get_items_true run [] s = Inr ([], s)"
| "get_items_true run (so # rest) s =
     (case run so s of
        Inl e \<Rightarrow> Inl e
      | Inr (r, s1) \<Rightarrow>
          (case get_items_true run rest s1 of
             Inl e \<Rightarrow> Inl e
           | Inr (rs, s2) \<Rightarrow> Inr (r # rs, s2)))"

text \<open>
  The branch of \<open>__getitem__\<close> for a range on a dataset with \<open>num_processes > 1\<close>.
  \<open>run_copy\<close> is \<open>_get_item\<close> of a worker's copy on the caches of the copy, \<open>run_self\<close>
  is \<open>_get_item\<close> of the dataset itself on its cache and the state of its base, and
  \<open>offset\<close> is the value drawn by \<open>np.random.randint(0, num_processes)\<close>.
\<close>

definition getitem_parallel ::
  "'a stage \<Rightarrow> nat
   \<Rightarrow> (slice_obj \<Rightarrow> (rat, 'a container) cache list \<Rightarrow> error + ('a container \<times> (rat, 'a container) cache list))
   \<Rightarrow> (slice_obj \<Rightarrow> (rat, 'a container) cache \<times> 'b \<Rightarrow> error + ('a container \<times> (rat, 'a container) cache \<times> 'b))
   \<Rightarrow> rat \<Rightarrow> rat \<Rightarrow> 'a stage_state \<times> 'b \<Rightarrow> error + ('a container \<times> 'a stage_state \<times> 'b)" where
  "getitem_parallel stg offset run_copy run_self a b st =
     (case st of (ss, base_st) \<Rightarrow>
        (let slice_size = b - a;
             num_sub_slices = min slice_size (of_int (num_processes stg)) in
         ebind (sub_slices_of a b num_sub_slices) (\<lambda>sub_slices.
         ebind (dispatch (worker_serve run_copy) offset (num_processes stg)
                  (zip [0..<length sub_slices] sub_slices) (stage_workers ss)) (\<lambda>ws1.
         ebind (collect offset (num_processes stg) [0..<length sub_slices] ws1)
           (\<lambda>(items_as_lists, ws2).
         ebind (get_items_true run_self sub_slices (stage_cache ss, base_st))
           (\<lambda>(items_as_lists_true, (c', base_st')).
         ebind (compare_items (zip items_as_lists items_as_lists_true)) (\<lambda>_.
         ebind (list_join items_as_lists) (\<lambda>r.
           Inr (r, \<lparr>stage_cache = c', stage_workers = ws2\<rparr>, base_st')))))))))"

section \<open>Queries on a pipeline\<close>

text \<open>
  \<open>getitem\<close> is \<open>Dataset._slice_dataset\<close> on a container or a dataset, that is
  \<open>Container.slice\<close> after the integer check, or \<open>Dataset.__getitem__\<close>. A state with
  fewer entries than the pipeline has stages stands for no object of the program and
  gives AttributeError.
\<close>

lemma size_deep_copy: "size (deep_copy p) = size p"
  by (induction p) auto

function getitem :: "nat \<Rightarrow> 'a pipeline \<Rightarrow> slice_obj \<Rightarrow> 'a dstate \<Rightarrow> error + ('a container \<times> 'a dstate)" where
  "getitem offset (Container cont) slice_obj st =
     ebind (slice_container slice_obj cont) (\<lambda>r. Inr (r, st))"
| "getitem offset (Dataset stg base) slice_obj [] = Inl AttributeError"
| "getitem offset (Dataset stg base) slice_obj (ss # base_st) =
     (case (if num_processes stg < 2 then None
            else (case slice_obj of Num _ \<Rightarrow> None | Slice a b _ \<Rightarrow> Some (a, b))) of
        None \<Rightarrow>
          ebind (get_item stg (getitem offset base) slice_obj (stage_cache ss, base_st))
            (\<lambda>(r, c', base_st'). Inr (r, ss\<lparr>stage_cache := c'\<rparr> # base_st'))
      | Some (a, b) \<Rightarrow>
          ebind
            (getitem_parallel stg offset
               (\<lambda>so cs.
                  (case cs of
                     [] \<Rightarrow> Inl AttributeError
                   | c # base_cs \<Rightarrow>
                       ebind (get_item (stg\<lparr>num_processes := 1\<rparr>)
                                (getitem offset (deep_copy base)) so (c, copy_state base_cs))
                         (\<lambda>(r, c', bs'). Inr (r, c' # copy_caches bs'))))
               (get_item stg (getitem offset base))
               a b (ss, base_st))
            (\<lambda>(r, ss', base_st'). Inr (r, ss' # base_st')))"
  by pat_completeness auto
termination
  by (relation "measure (\<lambda>(offset, p, so, st). size p)") (auto simp: size_deep_copy)

section \<open>Constructing datasets\<close>

text \<open>
  \<open>Dataset.__init__\<close> with its default arguments: the default base slice function and
  slice function, no transform, element-wise queries, caching with a cache of size 1,
  one process.
\<close>

definition default_stage :: "string \<Rightarrow> pynum \<Rightarrow> 'a stage" where
  "default_stage nm sz =
     \<lparr>name = nm, stage_size = sz, base_slice_fn = default_base_slice_fn, trans_fn = None,
      slice_fn = default_slice_fn, elementwise_query_fn = True, with_caching = True,
      cache_size = 1, num_processes = 1\<rparr>"

text \<open>A new dataset on top of an existing one, whose state is kept below the new stage.\<close>

definition new_dataset ::
  "'a stage \<Rightarrow> 'a pipeline \<times> 'a dstate \<Rightarrow> 'a pipeline \<times> 'a dstate" where
  "new_dataset stg ds =
     (case ds of (base, base_st) \<Rightarrow> (Dataset stg base, init_stage_state stg base # base_st))"

text \<open>The fields \<open>_size\<close>, \<open>_with_caching\<close> and \<open>_cache_size\<close> of a dataset object.\<close>

fun top_stage :: "'a pipeline \<Rightarrow> error + 'a stage" where
  "top_stage (Container cont) = Inl AttributeError"
| "top_stage (Dataset stg base) = Inr stg"

section \<open>Teardown of the worker pool\<close>

text \<open>
  \<open>_end_multiprocessing\<close>. With the three attributes present, the sentinel is sent to
  every worker, the workers are joined or terminated, the queues are closed and the
  attributes are deleted. Without them, \<open>enumerate(self._workers)\<close> raises
  AttributeError in the \<open>try\<close> block and \<open>for w in self._workers\<close> raises it again in
  the \<open>finally\<close> block. \<open>__del__\<close> calls \<open>_end_multiprocessing\<close> and nothing else.
\<close>

definition end_multiprocessing :: "'a stage \<Rightarrow> 'a stage_state \<Rightarrow> error + 'a stage_state" where
  "end_multiprocessing stg ss =
     (if num_processes stg > 1 then
        (case stage_workers ss of
           None \<Rightarrow> Inl AttributeError
         | Some wl \<Rightarrow> Inr (ss\<lparr>stage_workers := None\<rparr>))
      else Inr ss)"

section \<open>Transform stages\<close>

text \<open>\<open>map\<close>, with the default base slice function.\<close>

definition map_dataset ::
  "string \<Rightarrow> ('a container \<Rightarrow> error + 'a container) \<Rightarrow> int \<Rightarrow> 'a pipeline \<times> 'a dstate
   \<Rightarrow> error + ('a pipeline \<times> 'a dstate)" where
  "map_dataset nm map_func np ds =
     ebind (top_stage (fst ds)) (\<lambda>self.
       Inr (new_dataset
              \<lparr>name = nm, stage_size = stage_size self, base_slice_fn = default_base_slice_fn,
               trans_fn = Some map_func, slice_fn = default_slice_fn,
               elementwise_query_fn = True, with_caching = with_caching self,
               cache_size = cache_size self, num_processes = np\<rparr> ds))"

text \<open>\<open>prefetch\<close>: a stage without a transform.\<close>

definition prefetch ::
  "string \<Rightarrow> int \<Rightarrow> 'a pipeline \<times> 'a dstate \<Rightarrow> error + ('a pipeline \<times> 'a dstate)" where
  "prefetch nm np ds =
     ebind (top_stage (fst ds)) (\<lambda>self.
       Inr (new_dataset
              \<lparr>name = nm, stage_size = stage_size self, base_slice_fn = default_base_slice_fn,
               trans_fn = None, slice_fn = default_slice_fn,
               elementwise_query_fn = True, with_caching = with_caching self,
               cache_size = cache_size self, num_processes = np\<rparr> ds))"

text \<open>
  \<open>batch\<close>. \<open>batch_array\<close> cuts a leaf into \<open>int(len(x) / batch_size)\<close> chunks and
  stacks each chunk into one array; \<open>ivy.concatenate\<close> of no arrays raises ValueError.
\<close>

definition val_len :: "'a val \<Rightarrow> error + nat" where
  "val_len x = (case x of Atom _ \<Rightarrow> Inl TypeError | Arr xs \<Rightarrow> Inr (length xs) | PyList xs \<Rightarrow> Inr (length xs))"

definition batch_array :: "int \<Rightarrow> 'a val \<Rightarrow> error + 'a val" where
  "batch_array batch_size x =
     ebind (val_len x) (\<lambda>n.
     ebind (val_iter x) (\<lambda>xs.
       if batch_size = 0 then Inl ZeroDivisionError
       else
         ebind (emap (\<lambda>i. ebind (py_slice xs (int i * batch_size) (int i * batch_size + batch_size) 1)
                              (\<lambda>chunk. if chunk = [] then Inl ValueError else Inr (Arr chunk)))
                  [0..<(if batch_size > 0 then n div nat batch_size else 0)])
           (\<lambda>batches. Inr (PyList batches))))"

definition batch_cont :: "int \<Rightarrow> 'a container \<Rightarrow> error + 'a container" where
  "batch_cont batch_size cont = container_map (batch_array batch_size) cont"

definition batch_base_slice_fn :: "int \<Rightarrow> slice_obj \<Rightarrow> error + slice_obj" where
  "batch_base_slice_fn batch_size slc_obj =
     (case slc_obj of
        Num n \<Rightarrow>
          Inr (Slice (of_int (py_round (of_int batch_size * n)))
                 (of_int (py_round (of_int batch_size * n + of_int batch_size))) (Some 1))
      | Slice a b st \<Rightarrow>
          Inr (Slice (of_int (py_round (of_int batch_size * a)))
                 (of_int (py_round (of_int batch_size * b))) (Some 1)))"

definition batch ::
  "string \<Rightarrow> int \<Rightarrow> int \<Rightarrow> 'a pipeline \<times> 'a dstate \<Rightarrow> error + ('a pipeline \<times> 'a dstate)" where
  "batch nm batch_size np ds =
     ebind (top_stage (fst ds)) (\<lambda>self.
       if batch_size = 0 then Inl ZeroDivisionError
       else
         Inr (new_dataset
                \<lparr>name = nm,
                 stage_size = PFloat (num_of (stage_size self) / of_int batch_size),
                 base_slice_fn = batch_base_slice_fn batch_size,
                 trans_fn = Some (batch_cont batch_size), slice_fn = default_slice_fn,
                 elementwise_query_fn = False, with_caching = with_caching self,
                 cache_size = \<lceil>rat_of_int (cache_size self) / of_int batch_size\<rceil>,
                 num_processes = np\<rparr> ds))"

text \<open>
  \<open>unbatch\<close>. The two dictionaries have the keys \<open>0, \<dots>, unrolled_size - 1\<close>; they are
  kept as lists, and a lookup under any other key raises KeyError.
\<close>

definition dict_get :: "nat list \<Rightarrow> rat \<Rightarrow> error + rat" where
  "dict_get d key =
     (if frac key = 0 \<and> 0 \<le> key \<and> nat \<lfloor>key\<rfloor> < length d
      then Inr (of_nat (d ! nat \<lfloor>key\<rfloor>)) else Inl KeyError)"

text \<open>\<open>range(n)\<close> for a size: a float raises TypeError.\<close>

definition range_of :: "pynum \<Rightarrow> error + nat list" where
  "range_of n = (case n of PInt i \<Rightarrow> Inr [0..<nat i] | PFloat _ \<Rightarrow> Inl TypeError)"

text \<open>
  The loop over the outer elements: element \<open>i\<close> is read with a point query on the
  dataset itself, and contributes \<open>data.size\<close> entries to both dictionaries.
\<close>

fun unbatch_index ::
  "nat \<Rightarrow> 'a pipeline \<Rightarrow> nat list \<Rightarrow> nat list \<times> nat list \<Rightarrow> 'a dstate
   \<Rightarrow> error + ((nat list \<times> nat list) \<times> 'a dstate)" where
  "unbatch_index offset p [] dicts st = Inr (dicts, st)"
| "unbatch_index offset p (i # is) dicts st =
     (case getitem offset p (Num (of_nat i)) st of
        Inl e \<Rightarrow> Inl e
      | Inr (data, st') \<Rightarrow>
          unbatch_index offset p is
            (fst dicts @ replicate (container_size data) i,
             snd dicts @ [0..<container_size data]) st')"

definition unbatch_base_slice_fn :: "nat list \<Rightarrow> slice_obj \<Rightarrow> error + slice_obj" where
  "unbatch_base_slice_fn unbatch_slice_dict slice_obj =
     (case (case slice_obj of Num n \<Rightarrow> (n, n + 1) | Slice a b st \<Rightarrow> (a, b)) of
        (a, b) \<Rightarrow>
          ebind (dict_get unbatch_slice_dict a) (\<lambda>so_start.
          ebind (dict_get unbatch_slice_dict (b - 1)) (\<lambda>last.
            (let so_stop = last + 1;
                 so_stop = (if so_stop = so_start then so_stop + 1 else so_stop)
             in Inr (Slice so_start so_stop (Some 1))))))"

text \<open>\<open>ivy.unstack(item, 0)\<close>: the entries of an array along its leading axis.\<close>

definition unstack :: "'a val \<Rightarrow> error + 'a val list" where
  "unstack x = (case x of Arr xs \<Rightarrow> Inr xs | _ \<Rightarrow> Inl TypeError)"

definition unbatch_fn :: "'a container \<Rightarrow> error + 'a container" where
  "unbatch_fn cont =
     container_map
       (\<lambda>x. ebind (val_iter x) (\<lambda>items.
             ebind (emap unstack items) (\<lambda>os. Inr (PyList (concat os))))) cont"

definition unbatch_slice_fn ::
  "nat list \<Rightarrow> nat \<Rightarrow> slice_obj \<Rightarrow> 'a container \<Rightarrow> pynum \<Rightarrow> error + 'a container" where
  "unbatch_slice_fn slice_dict unrolled_size slice_obj sliced_dataset dataset_size =
     (case slice_obj of
        Num n \<Rightarrow> ebind (dict_get slice_dict n) (\<lambda>j. slice_container (Num j) sliced_dataset)
      | Slice a b st \<Rightarrow>
          (let slice_size = (if b > a then b - a else b + of_nat unrolled_size - a) in
           ebind (dict_get slice_dict a) (\<lambda>so_start.
             slice_container (Slice so_start (so_start + slice_size) (Some 1)) sliced_dataset)))"

definition unbatch ::
  "nat \<Rightarrow> string \<Rightarrow> int \<Rightarrow> 'a pipeline \<times> 'a dstate \<Rightarrow> error + ('a pipeline \<times> 'a dstate)" where
  "unbatch offset nm np ds =
     (case ds of (p, st) \<Rightarrow>
        ebind (top_stage p) (\<lambda>self.
        ebind (range_of (stage_size self)) (\<lambda>is.
        ebind (unbatch_index offset p is ([], []) st) (\<lambda>((unbatch_slice_dict, slice_dict), st').
          (let unrolled_size = length unbatch_slice_dict in
           if num_of (stage_size self) = 0 then Inl ZeroDivisionError
           else
             Inr (new_dataset
                    \<lparr>name = nm, stage_size = PInt (int unrolled_size),
                     base_slice_fn = unbatch_base_slice_fn unbatch_slice_dict,
                     trans_fn = Some unbatch_fn,
                     slice_fn = unbatch_slice_fn slice_dict unrolled_size,
                     elementwise_query_fn = False, with_caching = with_caching self,
                     cache_size =
                       \<lceil>rat_of_int (cache_size self) * of_nat unrolled_size / num_of (stage_size self)\<rceil>,
                     num_processes = np\<rparr> (p, st')))))))"

section \<open>Segments with list leaves\<close>

text \<open>
  A segment for \<open>w\<close> indices as the datasets of this repository hold it: the keys of the
  container are distinct, and every leaf is a Python list with one entry per index,
  none of the entries being a Python list itself.
\<close>

definition is_py_list :: "'a val \<Rightarrow> bool" where
  "is_py_list x = (case x of PyList _ \<Rightarrow> True | _ \<Rightarrow> False)"

definition list_leaf :: "nat \<Rightarrow> 'a val \<Rightarrow> bool" where
  "list_leaf w x =
     (case x of PyList xs \<Rightarrow> length xs = w \<and> list_all (\<lambda>y. \<not> is_py_list y) xs | _ \<Rightarrow> False)"

definition list_leaves :: "nat \<Rightarrow> 'a container \<Rightarrow> bool" where
  "list_leaves w cont = (distinct (map fst cont) \<and> list_all (\<lambda>(k, x). list_leaf w x) cont)"

text \<open>The entry at position \<open>t\<close> of every leaf.\<close>

definition val_entry :: "nat \<Rightarrow> 'a val \<Rightarrow> 'a val" where
  "val_entry t x = (case x of Atom a \<Rightarrow> Atom a | Arr xs \<Rightarrow> xs ! t | PyList xs \<Rightarrow> xs ! t)"

definition unit_of :: "'a container \<Rightarrow> nat \<Rightarrow> 'a container" where
  "unit_of cont t = map (\<lambda>(k, x). (k, val_entry t x)) cont"

text \<open>A sequence of queries on a pipeline, each on the state the previous one left.\<close>

fun getitems ::
  "nat \<Rightarrow> 'a pipeline \<Rightarrow> slice_obj list \<Rightarrow> 'a dstate \<Rightarrow> error + ('a container list \<times> 'a dstate)" where
  "getitems offset p [] st = Inr ([], st)"
| "getitems offset p (so # rest) st =
     (case getitem offset p so st of
        Inl e \<Rightarrow> Inl e
      | Inr (r, st1) \<Rightarrow>
          (case getitems offset p rest st1 of
             Inl e \<Rightarrow> Inl e
           | Inr (rs, st2) \<Rightarrow> Inr (r # rs, st2)))"

section \<open>The cache keeps the most recently used keys\<close>

lemma remdups_snoc: "remdups (ks @ [k]) = removeAll k (remdups ks) @ [k]"
  by (induction ks) auto

lemma remove1_drop_distinct:
  assumes "distinct r" "k \<in> set (drop d r)"
  shows "drop d (remove1 k r @ [k]) = remove1 k (drop d r) @ [k]"
proof -
  have "distinct (take d r @ drop d r)" using assms(1) by simp
  then have kn: "k \<notin> set (take d r)" using assms(2) by (auto simp del: append_take_drop_id)
  have dl: "d \<le> length r" using assms(2) by (cases "d \<le> length r") auto
  have "remove1 k (take d r @ drop d r) = take d r @ remove1 k (drop d r)"
    using kn by (simp add: remove1_append del: append_take_drop_id)
  then have "remove1 k r = take d r @ remove1 k (drop d r)" by simp
  then show ?thesis using dl by simp
qed

lemma mru_hit: "k \<in> set (mru n ks) \<Longrightarrow> mru n (ks @ [k]) = remove1 k (mru n ks) @ [k]"
proof -
  assume a: "k \<in> set (mru n ks)"
  let ?r = "remdups ks"
  have kin: "k \<in> set ?r" using a unfolding mru_def by (meson in_set_dropD)
  have len: "length (removeAll k ?r) = length ?r - 1"
    using kin by (simp add: distinct_remove1_removeAll[symmetric] length_remove1)
  have pos: "0 < length ?r" using kin by (cases ?r) auto
  have "mru n (ks @ [k]) = drop (length ?r - n) (remove1 k ?r @ [k])"
    using len pos by (simp add: mru_def remdups_snoc distinct_remove1_removeAll)
  also have "\<dots> = remove1 k (drop (length ?r - n) ?r) @ [k]"
    using a unfolding mru_def by (intro remove1_drop_distinct) auto
  finally show ?thesis by (simp add: mru_def)
qed

lemma mru_miss_full:
  assumes "0 < n" "k \<notin> set (mru n ks)" "n \<le> length (mru n ks)"
  shows "mru n (ks @ [k]) = tl (mru n ks) @ [k]"
proof -
  let ?r = "remdups ks"
  let ?d = "length ?r - n"
  have nl: "n \<le> length ?r" using assms(3) by (simp add: mru_def)
  show ?thesis
  proof (cases "k \<in> set ?r")
    case False
    then have "removeAll k ?r = ?r" by simp
    then have "mru n (ks @ [k]) = drop (Suc ?d) (?r @ [k])"
      using nl assms(1) by (simp add: mru_def remdups_snoc Suc_diff_le)
    also have "\<dots> = tl (drop ?d ?r) @ [k]"
      using nl assms(1) by (simp add: drop_Suc tl_drop)
    finally show ?thesis by (simp add: mru_def)
  next
    case True
    have "distinct (take ?d ?r @ drop ?d ?r)" by simp
    have kt: "k \<in> set (take ?d ?r)"
      using True assms(2) unfolding mru_def
      by (metis Un_iff append_take_drop_id set_append)
    have kd: "k \<notin> set (drop ?d ?r)" using assms(2) by (simp add: mru_def)
    have "removeAll k (take ?d ?r @ drop ?d ?r) = remove1 k (take ?d ?r) @ drop ?d ?r"
      using kd by (simp add: distinct_remove1_removeAll del: append_take_drop_id)
    then have ra: "removeAll k ?r = remove1 k (take ?d ?r) @ drop ?d ?r" by simp
    have l1: "length (remove1 k (take ?d ?r)) = ?d - 1"
      using kt by (simp add: length_remove1)
    have dpos: "0 < ?d" using kt by (cases "?d") auto
    have len: "length (removeAll k ?r) = length ?r - 1"
      using True by (simp add: distinct_remove1_removeAll[symmetric] length_remove1)
    have "length (remdups (ks @ [k])) = length ?r"
      using len True by (cases ?r) (auto simp: remdups_snoc)
    then have "mru n (ks @ [k]) = drop ?d (removeAll k ?r @ [k])"
      unfolding mru_def by (simp only: remdups_snoc)
    also have "\<dots> = drop ?d (remove1 k (take ?d ?r) @ drop ?d ?r @ [k])"
      by (simp only: ra append_assoc)
    also have "\<dots> = drop 1 (drop ?d ?r @ [k])"
      using l1 dpos by simp
    also have "\<dots> = tl (drop ?d ?r) @ [k]"
      using nl assms(1) by (cases "drop ?d ?r") auto
    finally show ?thesis by (simp add: mru_def)
  qed
qed

lemma mru_miss_room:
  assumes "k \<notin> set (mru n ks)" "length (mru n ks) < n"
  shows "mru n (ks @ [k]) = mru n ks @ [k]"
proof -
  have l: "length (remdups ks) < n" using assms(2) by (simp add: mru_def) 
  then have "mru n ks = remdups ks" by (simp add: mru_def)
  then have "k \<notin> set (remdups ks)" using assms(1) by simp
  then have "removeAll k (remdups ks) = remdups ks" by simp
  then show ?thesis using l by (simp add: mru_def remdups_snoc)
qed


lemma cache_puts_append:
  "cache_puts c (xs @ ys) =
     (case cache_puts c xs of Inl e \<Rightarrow> Inl e | Inr c' \<Rightarrow> cache_puts c' ys)"
  by (induction xs arbitrary: c) (auto split: sum.splits)

lemma cache_wf_Cache: "cache_wf (Cache m)"
  by (simp add: cache_wf_def Cache_def)

lemma cache_setitem_wf:
  assumes "cache_wf c" "cache_setitem c k v = Inr c'"
  shows "cache_wf c'"
proof (cases "cache_contains c k")
  case True
  then have c': "c' = c\<lparr>used_keys := remove1 k (used_keys c) @ [k]\<rparr>" and kin: "k \<in> set (used_keys c)"
    using assms(2) by (auto simp: cache_setitem_def split: if_splits)
  have "set (remove1 k (used_keys c) @ [k]) = set (used_keys c)"
    using kin assms(1) by (auto simp: cache_wf_def)
  moreover have "distinct (remove1 k (used_keys c) @ [k])"
    using assms(1) by (auto simp: cache_wf_def)
  ultimately show ?thesis using assms(1) unfolding c' cache_wf_def by simp
next
  case False
  then have kn: "k \<notin> set (used_keys c)" "dict c k = None"
    using assms(1) by (auto simp: cache_wf_def cache_contains_def)
  show ?thesis
  proof (cases "int (length (used_keys c @ [k])) > max_size c")
    case over: True
    show ?thesis
    proof (cases "used_keys c")
      case Nil
      then show ?thesis using assms False over kn
        by (simp add: cache_setitem_def Let_def)
    next
      case (Cons u us)
      then have c': "c' = c\<lparr>used_keys := us @ [k], dict := ((dict c)(u := None))(k \<mapsto> v)\<rparr>"
        using assms(2) False over by (simp add: cache_setitem_def Let_def split: if_splits)
      have "dom (dict c) = insert u (set us)" "u \<notin> set us" "distinct us" "k \<noteq> u" "k \<notin> set us"
        using assms(1) Cons kn by (auto simp: cache_wf_def)
      then show ?thesis unfolding c' cache_wf_def by auto
    qed
  next
    case room: False
    then have c': "c' = c\<lparr>used_keys := used_keys c @ [k], dict := (dict c)(k \<mapsto> v)\<rparr>"
      using assms(2) False by (simp add: cache_setitem_def Let_def)
    show ?thesis unfolding c' using assms(1) kn by (auto simp: cache_wf_def)
  qed
qed

lemma cache_setitem_max_size: "cache_setitem c k v = Inr c' \<Longrightarrow> max_size c' = max_size c"
  by (auto simp: cache_setitem_def Let_def split: if_splits)

lemma cache_puts_wf: "cache_wf c \<Longrightarrow> cache_puts c kvs = Inr c' \<Longrightarrow> cache_wf c'"
proof (induction kvs arbitrary: c)
  case Nil
  then show ?case by simp
next
  case (Cons kv kvs)
  obtain k v where kv: "kv = (k, v)" by (cases kv)
  from Cons.prems(2) obtain c1 where c1: "cache_setitem c k v = Inr c1" "cache_puts c1 kvs = Inr c'"
    by (auto simp: kv split: sum.splits)
  from cache_setitem_wf[OF Cons.prems(1) c1(1)] Cons.IH c1(2) show ?case by blast
qed

lemma cache_setitem_mru:
  assumes m: "1 \<le> max_size c" and wf: "cache_wf c"
    and uk: "used_keys c = mru (nat (max_size c)) ks"
  shows "\<exists>c'. cache_setitem c k v = Inr c' \<and> used_keys c' = mru (nat (max_size c)) (ks @ [k])"
proof (cases "cache_contains c k")
  case True
  then have "k \<in> set (used_keys c)" using wf by (auto simp: cache_wf_def cache_contains_def)
  then show ?thesis using True uk by (simp add: cache_setitem_def mru_hit)
next
  case False
  then have kn: "k \<notin> set (mru (nat (max_size c)) ks)"
    using wf uk by (auto simp: cache_wf_def cache_contains_def)
  have le: "length (mru (nat (max_size c)) ks) \<le> nat (max_size c)"
    by (simp add: mru_def)
  show ?thesis
  proof (cases "int (length (used_keys c @ [k])) > max_size c")
    case over: True
    then have full: "nat (max_size c) \<le> length (mru (nat (max_size c)) ks)"
      using uk by simp
    then have ne: "used_keys c \<noteq> []" using m uk by auto
    then have "hd (used_keys c) \<in> dom (dict c)" using wf by (simp add: cache_wf_def)
    then have "dict c (hd (used_keys c)) \<noteq> None" by auto
    moreover have "mru (nat (max_size c)) (ks @ [k]) = tl (used_keys c) @ [k]"
      using mru_miss_full[OF _ kn full] m uk by simp
    ultimately show ?thesis using False over ne
      by (simp add: cache_setitem_def Let_def)
  next
    case room: False
    then have "length (mru (nat (max_size c)) ks) < nat (max_size c)" using uk by simp
    from mru_miss_room[OF kn this] show ?thesis using False room uk
      by (simp add: cache_setitem_def Let_def)
  qed
qed

lemma cache_puts_mru:
  assumes "1 \<le> m"
  shows "\<exists>c. cache_puts (Cache m) kvs = Inr c \<and> max_size c = m \<and> cache_wf c
           \<and> used_keys c = mru (nat m) (map fst kvs)"
proof (induction kvs rule: rev_induct)
  case Nil
  then show ?case by (simp add: Cache_def cache_wf_def mru_def)
next
  case (snoc kv kvs)
  then obtain c where c: "cache_puts (Cache m) kvs = Inr c" "max_size c = m" "cache_wf c"
    "used_keys c = mru (nat m) (map fst kvs)" by blast
  obtain k v where kv: "kv = (k, v)" by (cases kv)
  from cache_setitem_mru[of c "map fst kvs" k v] c assms
  obtain c' where c': "cache_setitem c k v = Inr c'" "used_keys c' = mru (nat m) (map fst kvs @ [k])"
    by auto
  have "cache_wf c'" using cache_setitem_wf[OF c(3) c'(1)] .
  moreover have "max_size c' = m" using cache_setitem_max_size[OF c'(1)] c(2) by simp
  ultimately show ?case using c c' kv by (simp add: cache_puts_append)
qed

text \<open>
  Claim C5, for a capacity of at least one. Starting from the empty cache of capacity
  \<open>m \<ge> 1\<close>, every sequence of puts succeeds; afterwards the recency list is the
  \<open>m\<close> most recently used keys, \<open>contains\<close> holds for exactly these keys (so it is
  false for every evicted key), and when more than \<open>m\<close> distinct keys were put the
  cache holds exactly \<open>m\<close> keys. A put of a present key only moves it to the most
  recent position (\<open>mru_hit\<close>), a put of an absent key into a full cache evicts the
  least recently used key (\<open>mru_miss_full\<close>).
\<close>
theorem cache_lru_eviction:
  assumes "1 \<le> m"
  shows "\<exists>c. cache_puts (Cache m) kvs = Inr c
           \<and> used_keys c = mru (nat m) (map fst kvs)
           \<and> (\<forall>k. cache_contains c k = (k \<in> set (mru (nat m) (map fst kvs))))
           \<and> (nat m < length (remdups (map fst kvs)) \<longrightarrow> length (used_keys c) = nat m)"
proof -
  from cache_puts_mru[OF assms, of kvs] obtain c where
    c: "cache_puts (Cache m) kvs = Inr c" "cache_wf c" "used_keys c = mru (nat m) (map fst kvs)"
    by blast
  have "\<forall>k. cache_contains c k = (k \<in> set (used_keys c))"
    using c(2) by (auto simp: cache_wf_def cache_contains_def)
  moreover have "nat m < length (remdups (map fst kvs)) \<longrightarrow> length (used_keys c) = nat m"
    using c(3) by (auto simp: mru_def)
  ultimately show ?thesis using c by auto
qed

text \<open>Capacity 2 and the keys 1, 2, 3: key 1 is evicted, 2 and 3 remain.\<close>
theorem cache_lru_eviction_witness:
  "(1::int) \<le> 2 \<and> (\<exists>c. cache_puts (Cache 2) [(1::nat, ''a''), (2, ''b''), (3, ''c'')] = Inr c
     \<and> used_keys c = [2, 3] \<and> \<not> cache_contains c 1 \<and> cache_contains c 2 \<and> cache_contains c 3
     \<and> length (used_keys c) = 2)"
  using cache_lru_eviction[of 2 "[(1::nat, ''a''), (2, ''b''), (3, ''c'')]"]
  by (auto simp: mru_def)

text \<open>
  Claim C5 as stated covers every capacity. With capacity 0 the first put appends the
  key, pops it again as the key to delete and raises KeyError at \<open>del\<close>, since the key
  is not in the dictionary yet.
\<close>
theorem cache_capacity_zero_counterexample:
  "cache_puts (Cache 0) [(1::nat, ''a'')] = Inl KeyError"
  by (simp add: cache_setitem_def Cache_def cache_contains_def)

text \<open>
  Claim C10. In every cache built from the constructor by puts, a put under a key that is
  present succeeds, leaves the dictionary (hence the value a later get returns for that
  key) as it was, and moves the key to the most recent position.
\<close>
theorem cache_put_present_keeps_value:
  assumes "cache_puts (Cache m) kvs = Inr c" and "cache_contains c key"
  shows "\<exists>c'. cache_setitem c key val = Inr c'
           \<and> cache_getitem c' key = cache_getitem c key
           \<and> dict c' = dict c
           \<and> used_keys c' = remove1 key (used_keys c) @ [key]"
proof -
  have "cache_wf c" using cache_puts_wf[OF cache_wf_Cache assms(1)] .
  then have "key \<in> set (used_keys c)" using assms(2)
    by (auto simp: cache_wf_def cache_contains_def)
  then show ?thesis using assms(2) by (simp add: cache_setitem_def cache_getitem_def)
qed

theorem cache_put_present_keeps_value_witness:
  "\<exists>c. cache_puts (Cache 2) [(1::nat, ''a''), (2, ''b'')] = Inr c \<and> cache_contains c 1
     \<and> (\<exists>c'. cache_setitem c 1 ''z'' = Inr c' \<and> cache_getitem c' 1 = Inr ''a''
            \<and> used_keys c' = [2, 1])"
proof -
  let ?c = "\<lparr>max_size = 2, used_keys = [1::nat, 2], dict = [1 \<mapsto> ''a'', 2 \<mapsto> ''b'']\<rparr>"
  have p: "cache_puts (Cache 2) [(1::nat, ''a''), (2, ''b'')] = Inr ?c"
    by (simp add: cache_setitem_def Cache_def cache_contains_def)
  have q: "cache_contains ?c 1" by (simp add: cache_contains_def)
  from cache_put_present_keeps_value[OF p q, of "''z''"] p q show ?thesis
    by (auto simp: cache_getitem_def)
qed


section \<open>Splitting a range by the cache\<close>
lemma split_fold_all_miss:
  "\<forall>i\<in>set xs. \<not> cache_contains c i \<Longrightarrow> foldl (split_step c) st xs = st"
  by (induction xs arbitrary: st) (auto simp: split_step_def)

text \<open>
  Claim C6. For a range \<open>R = [a, b)\<close> of unit step with \<open>a \<le> b\<close> and a cache that
  holds none of the unit indices of \<open>R\<close>, \<open>_split_slice_obj\<close> returns the one-element
  list \<open>[(False, R)]\<close>.
\<close>
theorem split_slice_obj_all_miss:
  assumes "a \<le> b" and "\<forall>i\<in>set (arange a b). \<not> cache_contains c i"
  shows "split_slice_obj (Slice a b (Some 1)) c = [(False, Slice a b (Some 1))]"
  using assms(1) by (simp add: split_slice_obj_def split_fold_all_miss[OF assms(2)])

text \<open>
  The same for a slice object with any step field: the bounds are those of the request,
  and a non-empty range is returned with step 1.
\<close>
lemma split_slice_obj_all_miss_step:
  assumes "\<forall>i\<in>set (arange a b). \<not> cache_contains c i"
  shows "split_slice_obj (Slice a b st) c = [(False, Slice a b (if a < b then Some 1 else st))]"
  by (simp add: split_slice_obj_def split_fold_all_miss[OF assms])

lemma arange_2_5: "arange 2 5 = [2, 3, 4]"
  by (simp add: arange_def upt_rec)

theorem split_slice_obj_all_miss_witness:
  "(2::rat) \<le> 5 \<and> arange 2 5 = [2, 3, 4]
   \<and> \<not> cache_contains (Cache 3 :: (rat, nat) cache) 2
   \<and> \<not> cache_contains (Cache 3 :: (rat, nat) cache) 3
   \<and> \<not> cache_contains (Cache 3 :: (rat, nat) cache) 4
   \<and> split_slice_obj (Slice 2 5 (Some 1)) (Cache 3 :: (rat, nat) cache) = [(False, Slice 2 5 (Some 1))]"
proof -
  have h: "\<forall>i\<in>set (arange 2 5). \<not> cache_contains (Cache 3 :: (rat, nat) cache) i"
    by (simp add: cache_contains_def Cache_def)
  have l: "(2::rat) \<le> 5" by simp
  from split_slice_obj_all_miss[OF l h] h show ?thesis by (simp add: arange_2_5)
qed

section \<open>Integer check of an index\<close>
lemma floor_ex: "\<lfloor>29999999 / 10000000 :: rat\<rfloor> = 2"
  by (simp add: floor_eq_iff)

text \<open>
  Claim C7 says that a value within \<open>1e-6\<close> of an integer is accepted and rounded to
  it. The check of \<open>_ensure_number_is_int\<close> is \<open>val % 1 > 1e-6\<close>, which looks at the
  distance to the integer below only: \<open>2.9999999\<close> is \<open>1e-7\<close> away from 3 and is
  rejected with the exception.
\<close>
theorem ensure_number_is_int_below_integer:
  "\<bar>(29999999 / 10000000 :: rat) - 3\<bar> \<le> 1 / 1000000 \<and>
   ensure_number_is_int (29999999 / 10000000) = Inl (NonIntegerSlice (29999999 / 10000000))"
  by (simp add: ensure_number_is_int_def frac_def floor_ex)

text \<open>
  What the check does: a value at most \<open>1e-6\<close> above an integer gives that integer,
  every other value raises the exception carrying the value.
\<close>
lemma ensure_number_is_int_accepts:
  "frac v \<le> 1 / 1000000 \<Longrightarrow> ensure_number_is_int v = Inr \<lfloor>v\<rfloor>"
  by (auto simp: ensure_number_is_int_def py_round_def Let_def frac_def)

lemma ensure_number_is_int_rejects:
  "frac v > 1 / 1000000 \<Longrightarrow> ensure_number_is_int v = Inl (NonIntegerSlice v)"
  by (simp add: ensure_number_is_int_def)


section \<open>Evaluating queries\<close>

text \<open>Rounding and the integer check on integer values.\<close>

lemma py_round_of_int [simp]: "py_round (of_int i) = i"
  by (simp add: py_round_def Let_def)

lemma py_round_numeral [simp]: "py_round (numeral n) = numeral n" "py_round 0 = 0" "py_round 1 = 1"
  using py_round_of_int[of "numeral n"] py_round_of_int[of 0] py_round_of_int[of 1] by simp_all

lemma ensure_int_of_int [simp]: "ensure_number_is_int (of_int i) = Inr i"
  by (simp add: ensure_number_is_int_def)

lemma ensure_int_numeral [simp]: "ensure_number_is_int (numeral n) = Inr (numeral n)"
  "ensure_number_is_int 0 = Inr 0" "ensure_number_is_int 1 = Inr 1"
  using ensure_int_of_int[of "numeral n"] ensure_int_of_int[of 0] ensure_int_of_int[of 1] by simp_all

lemma ebind_simps [simp]: "ebind (Inl e) f = Inl e" "ebind (Inr x) f = f x"
  by (simp_all add: ebind_def)

lemma wrap_8_2:
  "stage_size stg = PInt 10 \<Longrightarrow> wrap_slice_obj stg (Slice 8 2 st) = Inr (Slice 8 2 (Some 1))"
  by (simp add: wrap_slice_obj_def py_mod_def num_of_def floor_eq_iff)

lemma split_8_2: "split_slice_obj (Slice 8 2 (Some 1)) c = [(False, Slice 8 2 (Some 1))]"
  by (simp add: split_slice_obj_def arange_def)

lemma wrap_base_8_2:
  "stage_size stg = PInt 10 \<Longrightarrow>
   wrap_base_slice_obj stg (Slice 8 2 (Some 1)) = Two (Slice 8 10 (Some 1)) (Slice 0 2 (Some 1))"
  by (simp add: wrap_base_slice_obj_def num_of_def)

lemma fetch_8_10:
  "slice_container (Slice 8 10 (Some 1)) [(k, PyList [x0, x1, x2, x3, x4, x5, x6, x7, x8, x9])]
     = Inr [(k, PyList [x8, x9])]"
  by (simp add: slice_container_def container_slice_def val_slice_def py_slice_def py_range_def
      Let_def upt_rec)

lemma fetch_0_2:
  "slice_container (Slice 0 2 (Some 1)) [(k, PyList [x0, x1, x2, x3, x4, x5, x6, x7, x8, x9])]
     = Inr [(k, PyList [x0, x1])]"
  by (simp add: slice_container_def container_slice_def val_slice_def py_slice_def py_range_def
      Let_def upt_rec)

lemma join_halves:
  "list_join [[(k, PyList [x8, x9])], [(k, PyList [x0, x1])]] = Inr [(k, PyList [x8, x9, x0, x1])]"
  by (simp add: list_join_def container_get_def val_iter_def)

lemma slice_0_4:
  "slice_container (Slice 0 4 (Some 1)) [(k, PyList [x8, x9, x0, x1])] = Inr [(k, PyList [x8, x9, x0, x1])]"
  by (simp add: slice_container_def container_slice_def val_slice_def py_slice_def py_range_def
      Let_def upt_rec)


lemma get_pieces_single:
  "get_pieces stg fetch c [(False, so)] b =
     (case get_item_after_cache_n_wrap stg fetch so b of
        Inl e \<Rightarrow> Inl e
      | Inr (item, b1) \<Rightarrow> Inr ([item], (if with_caching stg then [(so, item)] else []), b1))"
  by (simp split: sum.splits)

lemma add_to_cache_wrapped:
  "b \<le> a \<Longrightarrow> add_to_cache c (Slice a b st) item = Inr c"
  by (simp add: add_to_cache_def arange_def)

lemma get_item_8_2:
  fixes x0 :: "'a val"
  shows "get_item ((default_stage nm (PInt 10))\<lparr>with_caching := wc, cache_size := cs\<rparr>)
           (getitem offset (Container [(k, PyList [x0, x1, x2, x3, x4, x5, x6, x7, x8, x9])]))
           (Slice 8 2 st) (c, [])
           = Inr ([(k, PyList [x8, x9, x0, x1])], c, [])"
proof -
  let ?stg = "(default_stage nm (PInt 10))\<lparr>with_caching := wc, cache_size := cs\<rparr> :: 'a stage"
  let ?f = "getitem offset (Container [(k, PyList [x0, x1, x2, x3, x4, x5, x6, x7, x8, x9])])"
  have sz: "stage_size ?stg = PInt 10" by (simp add: default_stage_def)
  have b1: "get_base_item ?stg ?f (Slice 8 10 (Some 1)) [] = Inr ([(k, PyList [x8, x9])], [])"
    by (simp add: get_base_item_def default_stage_def default_base_slice_fn_def
        fetch_8_10)
  have b2: "get_base_item ?stg ?f (Slice 0 2 (Some 1)) [] = Inr ([(k, PyList [x0, x1])], [])"
    by (simp add: get_base_item_def default_stage_def default_base_slice_fn_def
        fetch_0_2)
  have sl: "slice_fn (default_stage nm (PInt 10) :: 'a stage) (Slice 8 2 (Some 1))
              [(k, PyList [x8, x9, x0, x1])] (PInt 10)
              = Inr [(k, PyList [x8, x9, x0, x1])]"
    by (simp add: default_stage_def default_slice_fn_def num_of_def slice_0_4)
  have g: "get_item_after_cache_n_wrap ?stg ?f (Slice 8 2 (Some 1)) []
             = Inr ([(k, PyList [x8, x9, x0, x1])], [])"
    by (simp add: get_item_after_cache_n_wrap_def wrap_base_8_2[OF sz] get_item_from_slice_objs_def
        b1 b2 join_halves sl sz)
  show ?thesis
    by (simp add: get_item_def wrap_8_2[OF sz] split_8_2 get_pieces_single g
        add_to_cache_wrapped as_lists_def as_list_def)
qed


lemma fetch_unit:
  "i < 10 \<Longrightarrow>
   slice_container (Slice (of_nat i) (of_nat i + 1) (Some 1))
      [(k, PyList [x0, x1, x2, x3, x4, x5, x6, x7, x8, x9])]
     = Inr [(k, PyList [[x0, x1, x2, x3, x4, x5, x6, x7, x8, x9] ! i])]"
proof -
  assume i: "i < 10"
  have e1: "ensure_number_is_int (of_nat i) = Inr (int i)"
    using ensure_int_of_int[of "int i"] by simp
  have e2: "ensure_number_is_int (of_nat i + 1) = Inr (int i + 1)"
    using ensure_int_of_int[of "int i + 1"] by simp
  have r: "py_range (int i) (int i + 1) 1 = [int i]"
    by (simp add: py_range_def)
  show ?thesis using i
    by (simp add: slice_container_def container_slice_def val_slice_def py_slice_def r e1 e2 Let_def)
qed

lemma slice_unit_0: "slice_container (Num 0) [(k, PyList [x])] = Inr [(k, x)]"
  by (simp add: slice_container_def container_slice_def val_slice_def py_index_def)

lemma point_query:
  fixes x0 :: "'a val"
  assumes i: "i < 10"
  shows "map_sum id fst (get_item (default_stage nm (PInt 10))
           (getitem offset (Container [(k, PyList [x0, x1, x2, x3, x4, x5, x6, x7, x8, x9])]))
           (Num (of_nat i)) (Cache 1, []))
           = Inr [(k, [x0, x1, x2, x3, x4, x5, x6, x7, x8, x9] ! i)]"
proof -
  let ?stg = "default_stage nm (PInt 10) :: 'a stage"
  let ?xs = "[x0, x1, x2, x3, x4, x5, x6, x7, x8, x9]"
  let ?f = "getitem offset (Container [(k, PyList ?xs)])"
  have fl: "\<lfloor>rat_of_nat i / 10\<rfloor> = 0" using i by (simp add: floor_eq_iff)
  have w: "wrap_slice_obj ?stg (Num (of_nat i)) = Inr (Num (of_nat i))"
    by (simp add: wrap_slice_obj_def py_mod_def num_of_def default_stage_def fl)
  have sp: "split_slice_obj (Num (of_nat i)) (Cache 1 :: (rat, 'a container) cache) = [(False, Num (of_nat i))]"
    by (simp add: split_slice_obj_def cache_contains_def Cache_def)
  have pr: "py_round (of_nat i) = int i" "py_round (of_nat i + 1) = int i + 1"
    using py_round_of_int[of "int i"] py_round_of_int[of "int i + 1"] by simp_all
  have b: "get_base_item ?stg ?f (Num (of_nat i)) [] = Inr ([(k, PyList [?xs ! i])], [])"
    using fetch_unit[OF i, of k x0 x1 x2 x3 x4 x5 x6 x7 x8 x9]
    by (simp add: get_base_item_def default_stage_def default_base_slice_fn_def pr)
  have g: "get_item_after_cache_n_wrap ?stg ?f (Num (of_nat i)) [] = Inr ([(k, ?xs ! i)], [])"
    by (simp add: get_item_after_cache_n_wrap_def wrap_base_slice_obj_def
        get_item_from_slice_objs_def b)
       (simp add: default_stage_def default_slice_fn_def slice_unit_0)
  have wc: "with_caching ?stg" by (simp add: default_stage_def)
  have a: "\<exists>c'. add_to_cache (Cache 1) (Num (of_nat i)) [(k, ?xs ! i)] = Inr (c' :: (rat, 'a container) cache)"
    by (simp add: add_to_cache_def cache_setitem_def cache_contains_def Cache_def)
  then obtain c' :: "(rat, 'a container) cache"
    where c': "add_to_cache (Cache 1) (Num (of_nat i)) [(k, ?xs ! i)] = Inr c'" by blast
  show ?thesis
    by (simp add: get_item_def w sp get_pieces_single g wc c')
qed


text \<open>
  Claim C1. A dataset of size 10 over a container whose leaf holds the ten entries
  \<open>x0, \<dots>, x9\<close>, with the default slice functions, any cache size and caching on or
  off. The range query \<open>[8, 2)\<close> returns the four entries \<open>x8, x9, x0, x1\<close> in this
  order and leaves the state as it was; the wrapped range is resolved into \<open>[8, 10)\<close>
  and \<open>[0, 2)\<close>, the two fetches from the base return \<open>x8, x9\<close> and \<open>x0, x1\<close>, and
  their join is the result. The entries are the results of the point queries 8, 9, 0
  and 1 of the dataset constructed with the default arguments.
\<close>

theorem wrap_around_range_8_2:
  fixes x0 :: "'a val"
  shows
   "(let xs = [x0, x1, x2, x3, x4, x5, x6, x7, x8, x9];
         base = Container [(k, PyList xs)];
         stg = (default_stage nm (PInt 10))\<lparr>with_caching := wc, cache_size := cs\<rparr>;
         p = Dataset stg base;
         p0 = Dataset (default_stage nm (PInt 10)) base
     in getitem offset p (Slice 8 2 st) (init_state p)
          = Inr ([(k, PyList [x8, x9, x0, x1])], init_state p)
      \<and> wrap_base_slice_obj stg (Slice 8 2 (Some 1))
          = Two (Slice 8 10 (Some 1)) (Slice 0 2 (Some 1))
      \<and> get_base_item stg (getitem offset base) (Slice 8 10 (Some 1)) []
          = Inr ([(k, PyList [x8, x9])], [])
      \<and> get_base_item stg (getitem offset base) (Slice 0 2 (Some 1)) []
          = Inr ([(k, PyList [x0, x1])], [])
      \<and> list_join [[(k, PyList [x8, x9])], [(k, PyList [x0, x1])]]
          = Inr [(k, PyList [x8, x9, x0, x1])]
      \<and> map (\<lambda>i. map_sum id fst (getitem offset p0 (Num (of_nat i)) (init_state p0))) [8, 9, 0, 1]
          = [Inr [(k, x8)], Inr [(k, x9)], Inr [(k, x0)], Inr [(k, x1)]])"
proof -
  let ?xs = "[x0, x1, x2, x3, x4, x5, x6, x7, x8, x9]"
  let ?base = "Container [(k, PyList ?xs)]"
  let ?stg = "(default_stage nm (PInt 10))\<lparr>with_caching := wc, cache_size := cs\<rparr> :: 'a stage"
  let ?dflt = "default_stage nm (PInt 10) :: 'a stage"
  have np: "num_processes ?stg = 1" "num_processes ?dflt = 1" "cache_size ?dflt = 1"
    "stage_size ?stg = PInt 10"
    by (simp_all add: default_stage_def)
  have st: "init_state (Dataset ?stg ?base) = [\<lparr>stage_cache = Cache cs, stage_workers = None\<rparr>]"
    by (simp add: init_stage_state_def default_stage_def)
  have st0: "init_state (Dataset ?dflt ?base) = [\<lparr>stage_cache = Cache 1, stage_workers = None\<rparr>]"
    by (simp add: init_stage_state_def default_stage_def)
  have q: "getitem offset (Dataset ?stg ?base) (Slice 8 2 st) (init_state (Dataset ?stg ?base))
             = Inr ([(k, PyList [x8, x9, x0, x1])], init_state (Dataset ?stg ?base))"
    unfolding st by (simp add: np get_item_8_2)
  have b1: "get_base_item ?stg (getitem offset ?base) (Slice 8 10 (Some 1)) []
              = Inr ([(k, PyList [x8, x9])], [])"
    by (simp add: get_base_item_def default_stage_def default_base_slice_fn_def fetch_8_10)
  have b2: "get_base_item ?stg (getitem offset ?base) (Slice 0 2 (Some 1)) []
              = Inr ([(k, PyList [x0, x1])], [])"
    by (simp add: get_base_item_def default_stage_def default_base_slice_fn_def fetch_0_2)
  have pq: "i < 10 \<Longrightarrow>
      map_sum id fst (getitem offset (Dataset ?dflt ?base) (Num (of_nat i)) (init_state (Dataset ?dflt ?base)))
        = Inr [(k, ?xs ! i)]" for i
    using point_query[of i nm offset k x0 x1 x2 x3 x4 x5 x6 x7 x8 x9]
    unfolding st0 by (auto simp: np ebind_def split: sum.splits)
  have p8: "map_sum id fst (getitem offset (Dataset ?dflt ?base) (Num (of_nat 8)) (init_state (Dataset ?dflt ?base)))
        = Inr [(k, x8)]" using pq[of 8] by simp
  have p9: "map_sum id fst (getitem offset (Dataset ?dflt ?base) (Num (of_nat 9)) (init_state (Dataset ?dflt ?base)))
        = Inr [(k, x9)]" using pq[of 9] by simp
  have p0: "map_sum id fst (getitem offset (Dataset ?dflt ?base) (Num (of_nat 0)) (init_state (Dataset ?dflt ?base)))
        = Inr [(k, x0)]" using pq[of 0] by simp
  have p1: "map_sum id fst (getitem offset (Dataset ?dflt ?base) (Num (of_nat 1)) (init_state (Dataset ?dflt ?base)))
        = Inr [(k, x1)]" using pq[of 1] by simp
  have wb: "wrap_base_slice_obj ?stg (Slice 8 2 (Some 1))
          = Two (Slice 8 10 (Some 1)) (Slice 0 2 (Some 1))"
    by (rule wrap_base_8_2[OF np(4)])
  have jh: "list_join [[(k, PyList [x8, x9])], [(k, PyList [x0, x1])]]
          = Inr [(k, PyList [x8, x9, x0, x1])]"
    by (rule join_halves)
  show ?thesis
    by (simp only: Let_def list.map q wb b1 b2 jh p8 p9 p0 p1 simp_thms)
qed

section \<open>Teardown\<close>

text \<open>
  Claim C8 says that a second teardown succeeds and changes nothing. For a dataset
  constructed with two processes the first call of \<open>_end_multiprocessing\<close> deletes the
  worker attributes, and the second call, which still finds \<open>num_processes > 1\<close>, raises
  AttributeError on the deleted attributes.
\<close>

theorem end_multiprocessing_twice_raises:
  "(let stg = (default_stage nm sz)\<lparr>num_processes := 2\<rparr>;
        ss = init_stage_state stg base
    in end_multiprocessing stg ss = Inr (ss\<lparr>stage_workers := None\<rparr>)
     \<and> end_multiprocessing stg (ss\<lparr>stage_workers := None\<rparr>) = Inl AttributeError)"
  by (simp add: Let_def end_multiprocessing_def init_stage_state_def default_stage_def)

text \<open>The same for every number of processes above one and every pool.\<close>

lemma end_multiprocessing_second_call:
  "1 < num_processes stg \<Longrightarrow> stage_workers ss = Some wl \<Longrightarrow>
   ebind (end_multiprocessing stg ss) (end_multiprocessing stg) = Inl AttributeError"
  by (simp add: end_multiprocessing_def)

text \<open>A dataset with one process has no pool, and its teardown does nothing.\<close>

lemma end_multiprocessing_single_process:
  "num_processes stg \<le> 1 \<Longrightarrow> end_multiprocessing stg ss = Inr ss"
  by (simp add: end_multiprocessing_def)

section \<open>The parallel path\<close>

text \<open>
  Claim C4 says that the parallel path returns what the single-process path returns,
  for every range. On the size-10 dataset of claim C1 with three processes, the range
  \<open>[8, 2)\<close> has \<open>stop - start = -6\<close>, so \<open>np.linspace\<close> is asked for \<open>-5\<close> points and
  raises ValueError before any sub-range is dispatched, for every offset; the
  single-process path returns the four entries \<open>x8, x9, x0, x1\<close>.
\<close>

theorem parallel_wrap_around_raises:
  fixes x0 :: "'a val"
  shows
   "(let base = Container [(k, PyList [x0, x1, x2, x3, x4, x5, x6, x7, x8, x9])];
         par = Dataset ((default_stage nm (PInt 10))\<lparr>num_processes := 3\<rparr>) base;
         single = Dataset (default_stage nm (PInt 10)) base
     in getitem offset par (Slice 8 2 st) (init_state par) = Inl ValueError
      \<and> map_sum id fst (getitem offset single (Slice 8 2 st) (init_state single))
          = Inr [(k, PyList [x8, x9, x0, x1])])"
proof -
  let ?base = "Container [(k, PyList [x0, x1, x2, x3, x4, x5, x6, x7, x8, x9])]"
  let ?par = "(default_stage nm (PInt 10))\<lparr>num_processes := 3\<rparr> :: 'a stage"
  let ?single = "default_stage nm (PInt 10) :: 'a stage"
  have sub: "sub_slices_of 8 2 (- 6) = Inl ValueError"
    by (simp add: sub_slices_of_def)
  have a: "getitem offset (Dataset ?par ?base) (Slice 8 2 st) (init_state (Dataset ?par ?base))
             = Inl ValueError"
    by (simp add: getitem_parallel_def sub default_stage_def)
  have "get_item ((default_stage nm (PInt 10))\<lparr>with_caching := True, cache_size := 1\<rparr>)
          (getitem offset ?base) (Slice 8 2 st) (Cache 1, [])
          = Inr ([(k, PyList [x8, x9, x0, x1])], Cache 1, [])"
    by (rule get_item_8_2)
  moreover have "(default_stage nm (PInt 10))\<lparr>with_caching := True, cache_size := 1\<rparr> = ?single"
    by (simp add: default_stage_def)
  ultimately have g: "get_item ?single (getitem offset ?base) (Slice 8 2 st) (Cache 1, [])
          = Inr ([(k, PyList [x8, x9, x0, x1])], Cache 1, [])"
    by simp
  have np: "num_processes ?single = 1" "cache_size ?single = 1"
    by (simp_all add: default_stage_def)
  have b: "map_sum id fst (getitem offset (Dataset ?single ?base) (Slice 8 2 st)
                             (init_state (Dataset ?single ?base)))
             = Inr [(k, PyList [x8, x9, x0, x1])]"
    by (simp add: init_stage_state_def np g)
  show ?thesis
    by (simp only: Let_def a b simp_thms)
qed

text \<open>
  For a range inside the dataset the two paths agree: with three processes on a dataset
  of size 9, the range \<open>[0, 9)\<close> gives the nine entries in order whichever offset is
  drawn, as the single-process path does.
\<close>

lemma parallel_in_bounds_scenario:
  "(let base = Container [(''x'', PyList (map Atom [0..<9::nat]))];
        par = Dataset ((default_stage ''d'' (PInt 9))\<lparr>num_processes := 3\<rparr>) base;
        single = Dataset (default_stage ''d'' (PInt 9)) base
    in map (\<lambda>offset. map_sum id fst (getitem offset par (Slice 0 9 None) (init_state par))) [0, 1, 2]
         = replicate 3 (map_sum id fst (getitem 0 single (Slice 0 9 None) (init_state single)))
     \<and> map_sum id fst (getitem 0 single (Slice 0 9 None) (init_state single))
         = Inr [(''x'', PyList (map Atom [0..<9]))])"
  by code_simp

text \<open>
  Claim C9 says that a fanned-out range query leaves the coordinator's cache as it was.
  After collecting the workers' results, \<open>__getitem__\<close> computes every sub-range again
  with its own \<open>_get_item\<close>, which caches what it fetches. On a dataset of size 4 with
  two processes and the default cache of size 1, the range \<open>[0, 4)\<close> is returned in
  full, and the coordinator's cache, empty before, holds index 3 afterwards, whichever
  offset is drawn.
\<close>

theorem parallel_query_fills_coordinator_cache:
  "(let p = Dataset ((default_stage ''d'' (PInt 4))\<lparr>num_processes := 2\<rparr>)
              (Container [(''x'', PyList [Atom (0::nat), Atom 1, Atom 2, Atom 3])])
    in used_keys (stage_cache (hd (init_state p))) = []
     \<and> map_sum id (\<lambda>(r, s). (r, used_keys (stage_cache (hd s))))
          (getitem 0 p (Slice 0 4 None) (init_state p))
        = Inr ([(''x'', PyList [Atom 0, Atom 1, Atom 2, Atom 3])], [3])
     \<and> map_sum id (\<lambda>(r, s). (r, used_keys (stage_cache (hd s))))
          (getitem 1 p (Slice 0 4 None) (init_state p))
        = Inr ([(''x'', PyList [Atom 0, Atom 1, Atom 2, Atom 3])], [3]))"
  by code_simp

section \<open>Batching and unbatching\<close>

text \<open>
  Claim C3 says that \<open>batch(b)\<close> followed by \<open>unbatch()\<close> gives back the dataset.
  \<open>batch\<close> makes the size of the new dataset a float, \<open>float(self._size / batch_size)\<close>,
  and \<open>unbatch\<close> starts with \<open>for i in range(self._size)\<close>, which raises TypeError on
  a float: \<open>unbatch\<close> of a batched dataset never returns a dataset, whatever the
  dataset, its state and the batch size.
\<close>

theorem unbatch_after_batch_raises:
  "ebind (batch nm batch_size np (Dataset stg base, st)) (unbatch offset nm' np')
     = Inl (if batch_size = 0 then ZeroDivisionError else TypeError)"
  by (simp add: batch_def unbatch_def new_dataset_def range_of_def)

text \<open>
  With the size of the batched dataset put back to the integer 2, \<open>unbatch\<close> returns a
  dataset whose point queries 0 to 3 and whose range query \<open>[0, 4)\<close> give the entries
  of the original dataset of size 4 in order: the float size is all that stands between
  \<open>batch\<close> and \<open>unbatch\<close>.
\<close>

lemma unbatch_after_batch_int_size:
  "(let d = new_dataset (default_stage ''d'' (PInt 4))
              (Container [(''x'', PyList (map Atom [0..<4::nat]))], [])
    in ebind (batch ''b'' 2 1 d) (\<lambda>(p, st).
         case p of
           Dataset stg base \<Rightarrow>
             ebind (unbatch 0 ''u'' 1 (Dataset (stg\<lparr>stage_size := PInt 2\<rparr>) base, st)) (\<lambda>(u, st').
               map_sum id fst (getitems 0 u [Num 0, Num 1, Num 2, Num 3, Slice 0 4 None] st'))
         | Container _ \<Rightarrow> Inl AttributeError)
       = Inr [[(''x'', Atom 0)], [(''x'', Atom 1)], [(''x'', Atom 2)], [(''x'', Atom 3)],
              [(''x'', PyList [Atom 0, Atom 1, Atom 2, Atom 3])]])"
  by code_simp

section \<open>The same range queried twice\<close>

subsection \<open>Units of a segment\<close>

lemma emap_Inr: "(\<And>x. x \<in> set xs \<Longrightarrow> f x = Inr (g x)) \<Longrightarrow> emap f xs = Inr (map g xs)"
  by (induction xs) auto

lemma list_leaves_Cons:
  "list_leaves w ((k, x) # cont) = (k \<notin> fst ` set cont \<and> list_leaf w x \<and> list_leaves w cont)"
  by (auto simp: list_leaves_def)

lemma list_leafE:
  assumes "list_leaf w x"
  obtains xs where "x = PyList xs" "length xs = w" "\<forall>y\<in>set xs. \<not> is_py_list y"
  using assms by (auto simp: list_leaf_def list_all_iff split: val.splits)

lemma list_leaves_leaf: "list_leaves w cont \<Longrightarrow> (k, x) \<in> set cont \<Longrightarrow> list_leaf w x"
  by (auto simp: list_leaves_def list_all_iff)

lemma slice_unit:
  assumes "list_leaves w item" "t < w"
  shows "slice_container (Num (of_nat t)) item = Inr (unit_of item t)"
proof -
  have e: "ensure_number_is_int (of_nat t) = Inr (int t)"
    using ensure_int_of_int[of "int t"] by simp
  have "emap (\<lambda>(k, x). ebind (val_slice (INum (int t)) x) (\<lambda>y. Inr (k, y))) item
          = Inr (map (\<lambda>(k, x). (k, val_entry t x)) item)"
  proof (rule emap_Inr)
    fix kx assume kx: "kx \<in> set item"
    obtain k x where [simp]: "kx = (k, x)" by (cases kx)
    from list_leaves_leaf[OF assms(1)] kx have "list_leaf w x" by simp
    then obtain xs where "x = PyList xs" "length xs = w" by (rule list_leafE)
    then show "(case kx of (k, x) \<Rightarrow> ebind (val_slice (INum (int t)) x) (\<lambda>y. Inr (k, y)))
                 = Inr (case kx of (k, x) \<Rightarrow> (k, val_entry t x))"
      using assms(2) by (simp add: val_slice_def py_index_def val_entry_def)
  qed
  then show ?thesis
    by (simp add: slice_container_def e container_slice_def unit_of_def)
qed

lemma as_lists_list_leaves: "list_leaves w item \<Longrightarrow> as_lists item = item"
proof -
  assume a: "list_leaves w item"
  have "map (\<lambda>(k, x). (k, as_list x)) item = map (\<lambda>kx. kx) item"
  proof (rule map_cong[OF refl])
    fix kx assume kx: "kx \<in> set item"
    obtain k x where [simp]: "kx = (k, x)" by (cases kx)
    from list_leaves_leaf[OF a] kx have "list_leaf w x" by simp
    then obtain xs where "x = PyList xs" by (rule list_leafE)
    then show "(case kx of (k, x) \<Rightarrow> (k, as_list x)) = kx" by (simp add: as_list_def)
  qed
  then show ?thesis by (simp add: as_lists_def)
qed

lemma as_list_entry:
  "list_leaf w x \<Longrightarrow> t < w \<Longrightarrow> as_list (val_entry t x) = PyList [val_entry t x]"
  by (erule list_leafE) (auto simp: as_list_def val_entry_def is_py_list_def split: val.splits)

lemma map_of_unit:
  assumes "distinct (map fst item)" "(k, x) \<in> set item"
  shows "map_of (as_lists (unit_of item t)) k = Some (as_list (val_entry t x))"
proof -
  have "as_lists (unit_of item t) = map (\<lambda>(k, x). (k, as_list (val_entry t x))) item"
    by (simp add: as_lists_def unit_of_def split_def)
  moreover have "map_of (map (\<lambda>(k, x). (k, as_list (val_entry t x))) item) k
       = map_option (\<lambda>x. as_list (val_entry t x)) (map_of item k)"
    by (induction item) auto
  moreover have "map_of item k = Some x" using assms by simp
  ultimately show ?thesis by simp
qed

lemma emap_map: "emap g (map f xs) = emap (\<lambda>x. g (f x)) xs"
  by (induction xs) (auto split: sum.splits)

lemma rejoin_units:
  assumes ll: "list_leaves w item" and w: "0 < w"
  shows "list_join (map (\<lambda>t. as_lists (unit_of item t)) [0..<w]) = Inr item"
proof -
  let ?conts = "map (\<lambda>t. as_lists (unit_of item t)) [0..<w]"
  have d: "distinct (map fst item)" using ll by (simp add: list_leaves_def)
  obtain rest where c0: "?conts = as_lists (unit_of item 0) # rest"
    using w by (cases w) (auto simp: upt_rec)
  have keys: "as_lists (unit_of item 0) = map (\<lambda>(k, x). (k, as_list (val_entry 0 x))) item"
    by (simp add: as_lists_def unit_of_def split_def)
  have leaf: "ebind (emap (\<lambda>c. ebind (container_get c k) val_iter) ?conts)
                 (\<lambda>xss. Inr (k, PyList (concat xss))) = Inr (k, x)"
    if kx: "(k, x) \<in> set item" for k x
  proof -
    from list_leaves_leaf[OF ll kx] have lx: "list_leaf w x" .
    then obtain xs where x: "x = PyList xs" "length xs = w" by (rule list_leafE)
    have "emap (\<lambda>t. ebind (container_get (as_lists (unit_of item t)) k) val_iter) [0..<w]
            = Inr (map (\<lambda>t. [val_entry t x]) [0..<w])"
    proof (rule emap_Inr)
      fix t assume "t \<in> set [0..<w]"
      then have t: "t < w" by simp
      show "ebind (container_get (as_lists (unit_of item t)) k) val_iter = Inr [val_entry t x]"
        by (simp add: container_get_def map_of_unit[OF d kx] as_list_entry[OF lx t] val_iter_def)
    qed
    moreover have "concat (map (\<lambda>t. [val_entry t x]) [0..<w]) = xs"
      using x map_nth[of xs] by (simp add: val_entry_def)
    ultimately show ?thesis using x by (simp add: emap_map)
  qed
  have "emap (\<lambda>kx. case kx of (k, x) \<Rightarrow> ebind (emap (\<lambda>c. ebind (container_get c k) val_iter) ?conts)
                 (\<lambda>xss. Inr (k, PyList (concat xss)))) item = Inr (map (\<lambda>kx. kx) item)"
    by (rule emap_Inr) (auto simp: leaf)
  then have "emap (\<lambda>(k, _). ebind (emap (\<lambda>c. ebind (container_get c k) val_iter) ?conts)
                 (\<lambda>xss. Inr (k, PyList (concat xss)))) (as_lists (unit_of item 0)) = Inr item"
    by (simp add: keys emap_map split_def)
  then show ?thesis
    unfolding list_join_def c0[symmetric] by (simp add: c0)
qed

lemma rejoin_single:
  assumes ll: "list_leaves 1 item"
  shows "as_lists (unit_of item 0) = item"
proof -
  have "map (\<lambda>(k, x). (k, as_list (val_entry 0 x))) item = map (\<lambda>kx. kx) item"
  proof (rule map_cong[OF refl])
    fix kx assume kx: "kx \<in> set item"
    obtain k x where [simp]: "kx = (k, x)" by (cases kx)
    from list_leaves_leaf[OF ll] kx have lx: "list_leaf 1 x" by simp
    then obtain xs where x: "x = PyList xs" "length xs = 1" by (rule list_leafE)
    then obtain y where "xs = [y]" by (cases xs) auto
    then show "(case kx of (k, x) \<Rightarrow> (k, as_list (val_entry 0 x))) = kx"
      using as_list_entry[OF lx, of 0] x by (simp add: val_entry_def)
  qed
  then show ?thesis by (simp add: as_lists_def unit_of_def split_def comp_def)
qed

subsection \<open>Ranges with integer bounds\<close>

lemma arange_int:
  "arange (of_int i) (of_int j) = map (\<lambda>t. of_int i + of_nat t) [0..<nat (j - i)]"
proof -
  have "\<lceil>(of_int j :: rat) - of_int i\<rceil> = j - i"
    by (metis ceiling_of_int of_int_diff)
  then show ?thesis by (simp add: arange_def)
qed

lemma arange_int_cache:
  "i < j \<Longrightarrow> arange (of_int i) (of_int j - 1 / 1000) = map (\<lambda>t. of_int i + of_nat t) [0..<nat (j - i)]"
proof -
  assume "i < j"
  have "\<lceil>(of_int j :: rat) - 1 / 1000 - of_int i\<rceil> = j - i"
    by (rule ceiling_unique) auto
  then show ?thesis by (simp add: arange_def)
qed

lemma wrap_in_bounds:
  assumes "0 \<le> i" "i < j" "of_int j \<le> num_of (stage_size stg)"
  shows "wrap_slice_obj stg (Slice (of_int i) (of_int j) st)
           = Inr (Slice (of_int i) (of_int j) (Some 1))"
proof -
  let ?s = "num_of (stage_size stg)"
  have s: "0 < ?s" "of_int i < ?s" using assms by (auto simp: less_le_trans)
    
  have fi: "\<lfloor>of_int i / ?s\<rfloor> = 0"
    using assms(1) s by (simp add: floor_eq_iff)
  have mi: "py_mod (of_int i) ?s = Inr (of_int i)"
    using s fi by (simp add: py_mod_def)
  have mj: "(if (of_int j :: rat) \<noteq> of_int \<lceil>?s\<rceil> then py_mod (of_int j) ?s else Inr (of_int j))
              = Inr (of_int j)"
  proof (cases "(of_int j :: rat) = of_int \<lceil>?s\<rceil>")
    case True
    then show ?thesis by simp
  next
    case False
    have "of_int j \<noteq> ?s"
    proof
      assume e: "of_int j = ?s"
      then have "\<lceil>?s\<rceil> = j" by (metis ceiling_of_int)
      with False show False by simp
    qed
    then have lt: "of_int j < ?s" using assms(3) by simp
    have "0 \<le> j" using assms by simp
    then have "\<lfloor>of_int j / ?s\<rfloor> = 0" using lt s by (simp add: floor_eq_iff)
    then show ?thesis using False s by (simp add: py_mod_def)
  qed
  show ?thesis
    unfolding wrap_slice_obj_def by (simp only: slice_obj.case mi mj ebind_simps)
qed

lemma split_fold_all_hit:
  assumes "\<forall>t<n. cache_contains c (s + of_nat t)"
  shows "foldl (split_step c) (s, acc) (map (\<lambda>t. s + of_nat t) [0..<n])
           = (s + of_nat n, acc @ map (\<lambda>t. (True, Slice (s + of_nat t) (s + of_nat t + 1) (Some 1))) [0..<n])"
  using assms
proof (induction n)
  case 0
  then show ?case by simp
next
  case (Suc n)
  then show ?case by (simp add: split_step_def add.assoc add.commute)
qed

lemma split_all_hit:
  assumes "i < j" "\<forall>t<nat (j - i). cache_contains c (of_int i + of_nat t)"
  shows "split_slice_obj (Slice (of_int i) (of_int j) st) c
           = map (\<lambda>t. (True, Slice (of_int i + of_nat t) (of_int i + of_nat t + 1) (Some 1)))
               [0..<nat (j - i)]"
proof -
  have e: "(of_int i :: rat) + of_nat (nat (j - i)) = of_int j" using assms(1) by simp
  have ne: "[0..<nat (j - i)] \<noteq> []" using assms(1) by simp
  show ?thesis
    unfolding split_slice_obj_def
    using ne by (simp add: arange_int split_fold_all_hit[OF assms(2), of "[]"] e)
qed

lemma get_pieces_hits:
  assumes "\<forall>k\<in>set ks. dict c k = Some (u k)"
  shows "get_pieces stg fetch c (map (\<lambda>k. (True, Slice k (k + 1) (Some 1))) ks) b
           = Inr (map u ks, [], b)"
  using assms by (induction ks) (auto simp: cache_getitem_def)

lemma add_units_puts:
  assumes "list_leaves w item" "\<forall>t\<in>set ts. t < w"
  shows "add_units c a item (map (\<lambda>t. a + of_nat t) ts)
           = cache_puts c (map (\<lambda>t. (a + of_nat t, unit_of item t)) ts)"
  using assms(2)
proof (induction ts arbitrary: c)
  case Nil
  then show ?case by simp
next
  case (Cons t ts)
  have "slice_container (Num (of_nat t)) item = Inr (unit_of item t)"
    using slice_unit[OF assms(1)] Cons.prems by simp
  then show ?case using Cons by (auto split: sum.splits)
qed

subsection \<open>Values kept by the cache\<close>

lemma cache_puts_max_size: "cache_puts c kvs = Inr c' \<Longrightarrow> max_size c' = max_size c"
proof (induction kvs arbitrary: c)
  case Nil
  then show ?case by simp
next
  case (Cons kv kvs)
  obtain k v where kv: "kv = (k, v)" by (cases kv)
  from Cons.prems obtain c1 where c1: "cache_setitem c k v = Inr c1" "cache_puts c1 kvs = Inr c'"
    by (auto simp: kv split: sum.splits)
  from Cons.IH[OF c1(2)] cache_setitem_max_size[OF c1(1)] show ?case by simp
qed

lemma remdups_append_distinct:
  "distinct ns \<Longrightarrow> remdups (ks @ ns) = filter (\<lambda>x. x \<notin> set ns) (remdups ks) @ ns"
  by (induction ks) auto

lemma mru_keeps_new:
  assumes "distinct ns" "length ns \<le> n"
  shows "set ns \<subseteq> set (mru n (ks @ ns))"
proof -
  let ?xs = "filter (\<lambda>x. x \<notin> set ns) (remdups ks)"
  have "mru n (ks @ ns) = drop (length ?xs + length ns - n) (?xs @ ns)"
    by (simp add: mru_def remdups_append_distinct[OF assms(1)])
  also have "\<dots> = drop (length ?xs + length ns - n) ?xs @ ns"
    using assms(2) by simp
  finally show ?thesis by simp
qed

lemma cache_setitem_other:
  assumes "cache_setitem c k' v' = Inr c'" "k \<noteq> k'" "cache_contains c' k"
  shows "dict c' k = dict c k"
  using assms
  by (auto simp: cache_setitem_def cache_contains_def Let_def split: if_splits)

lemma cache_setitem_new:
  assumes "\<not> cache_contains c k" "cache_setitem c k v = Inr c'"
  shows "dict c' k = Some v"
  using assms
  by (auto simp: cache_setitem_def Let_def split: if_splits)

lemma cache_setitem_contains:
  assumes "cache_setitem c k0 v0 = Inr c'" "cache_contains c' k"
  shows "k = k0 \<or> cache_contains c k"
  using assms
  by (auto simp: cache_setitem_def cache_contains_def Let_def split: if_splits)

lemma cache_puts_keeps:
  assumes "cache_puts c kvs = Inr c'" "k \<notin> fst ` set kvs" "cache_contains c' k"
  shows "dict c' k = dict c k"
  using assms
proof (induction kvs arbitrary: c)
  case Nil
  then show ?case by simp
next
  case (Cons kv kvs)
  obtain k0 v0 where kv: "kv = (k0, v0)" by (cases kv)
  from Cons.prems(1) obtain c1 where c1: "cache_setitem c k0 v0 = Inr c1" "cache_puts c1 kvs = Inr c'"
    by (auto simp: kv split: sum.splits)
  have ne: "k \<noteq> k0" "k \<notin> fst ` set kvs" using Cons.prems(2) kv by auto
  have e: "dict c' k = dict c1 k" using Cons.IH[OF c1(2) ne(2) Cons.prems(3)] .
  then have "cache_contains c1 k" using Cons.prems(3) by (simp add: cache_contains_def)
  from cache_setitem_other[OF c1(1) ne(1) this] e show ?case by simp
qed

lemma cache_puts_new_value:
  assumes "cache_puts c kvs = Inr c'" "distinct (map fst kvs)"
    "\<forall>k\<in>fst ` set kvs. \<not> cache_contains c k" "(k, v) \<in> set kvs" "cache_contains c' k"
  shows "dict c' k = Some v"
  using assms
proof (induction kvs arbitrary: c)
  case Nil
  then show ?case by simp
next
  case (Cons kv kvs)
  obtain k0 v0 where kv: "kv = (k0, v0)" by (cases kv)
  from Cons.prems(1) obtain c1 where c1: "cache_setitem c k0 v0 = Inr c1" "cache_puts c1 kvs = Inr c'"
    by (auto simp: kv split: sum.splits)
  have d: "k0 \<notin> fst ` set kvs" "distinct (map fst kvs)" using Cons.prems(2) kv by auto
  show ?case
  proof (cases "(k, v) = (k0, v0)")
    case True
    have "\<not> cache_contains c k0" using Cons.prems(3) kv by simp
    from cache_setitem_new[OF this c1(1)] have "dict c1 k0 = Some v0" .
    moreover have "dict c' k0 = dict c1 k0"
      using cache_puts_keeps[OF c1(2) d(1)] Cons.prems(5) True by simp
    ultimately show ?thesis using True by simp
  next
    case False
    then have kin: "(k, v) \<in> set kvs" using Cons.prems(4) kv by auto
    have "\<forall>k\<in>fst ` set kvs. \<not> cache_contains c1 k"
    proof
      fix k' assume k': "k' \<in> fst ` set kvs"
      then have "k' \<noteq> k0" using d(1) by auto
      moreover have "\<not> cache_contains c k'" using Cons.prems(3) k' by auto
      ultimately show "\<not> cache_contains c1 k'" using cache_setitem_contains[OF c1(1)] by blast
    qed
    from Cons.IH[OF c1(2) d(2) this kin Cons.prems(5)] show ?thesis .
  qed
qed

lemma cache_puts_new_keys:
  assumes reach: "cache_puts (Cache m) kvs = Inr c"
    and d: "distinct (map fst news)"
    and miss: "\<forall>k\<in>fst ` set news. \<not> cache_contains c k"
    and cap: "int (length news) \<le> m" and m: "1 \<le> m"
  shows "\<exists>c1. cache_puts c news = Inr c1 \<and> cache_puts (Cache m) (kvs @ news) = Inr c1
           \<and> (\<forall>(k, v)\<in>set news. dict c1 k = Some v)"
proof -
  from cache_puts_mru[OF m, of "kvs @ news"] obtain c1 where
    c1: "cache_puts (Cache m) (kvs @ news) = Inr c1" "cache_wf c1"
      "used_keys c1 = mru (nat m) (map fst (kvs @ news))" by blast
  have p: "cache_puts c news = Inr c1" using c1(1) reach by (simp add: cache_puts_append)
  have "set (map fst news) \<subseteq> set (mru (nat m) (map fst kvs @ map fst news))"
    by (rule mru_keeps_new[OF d]) (use cap in simp)
  then have inn: "fst ` set news \<subseteq> set (used_keys c1)" using c1(3) by simp
  have "dict c1 k = Some v" if kv: "(k, v) \<in> set news" for k v
  proof -
    have "k \<in> set (used_keys c1)" using inn kv by force
    then have "cache_contains c1 k" using c1(2) by (auto simp: cache_wf_def cache_contains_def)
    from cache_puts_new_value[OF p d miss kv this] show ?thesis .
  qed
  then show ?thesis using p c1(1) by auto
qed
subsection \<open>The two queries\<close>




end
